(* ===== verification/Py_Base.thy ===== *)
theory Py_Base
  imports Complex_Main "HOL-Library.Sublist"
begin

text \<open>
  The prelude of the development: how a Python computation is represented, and the pieces of the
  Python language and standard library the order service relies on.

  \<^item> A Python \<^verbatim>\<open>str\<close> is represented by its UTF-8 byte sequence (a HOL \<^typ>\<open>string\<close>, one
    character per byte), a \<^verbatim>\<open>bytes\<close> object by its byte sequence. Encoding is then the identity
    and decoding is a validity check (\<open>utf8_decode\<close>).
  \<^item> A computation that may raise and that mutates objects is a function from a state to an
    outcome and the state it leaves behind; a raise keeps the mutations made before it, as in
    Python. \<^verbatim>\<open>os._exit\<close> is an outcome of its own, because no \<^verbatim>\<open>except\<close> clause sees it.
  \<^item> \<^verbatim>\<open>str(int)\<close>, \<^verbatim>\<open>int(str)\<close>, \<^verbatim>\<open>float(str)\<close>, \<^verbatim>\<open>str.strip\<close> and \<^verbatim>\<open>str.split(",")\<close> are
    executable functions on strings. White space and digits are the ASCII ones; a float is the exact
    rational its decimal literal denotes.
\<close>

named_theorems keeps_rules \<open>rules that push a kept predicate through a computation\<close>

type_synonym bytes = string

section \<open>Exceptions, outcomes and computations\<close>

text \<open>The exceptions of the program, by class; the second component of \<open>OtherError\<close> is the text.\<close>

datatype exn =
    RetryableError string
  | NonRetryableError string
  | StateStoreUnavailable string
  | FailurePublishFailed string
  | ProducerFenced string
  | ConsumerConfigError string
  | DeliveryFailed string
  | DeliveryTimeout string
  | HTTPException int string
  | KafkaException int string
  | BufferError string
  | ValueError string
  | OtherError string string

text \<open>\<^verbatim>\<open>type(exc).__name__\<close> and \<^verbatim>\<open>str(exc)\<close>.\<close>

fun exn_class :: "exn \<Rightarrow> string" where
  "exn_class (RetryableError _) = ''RetryableError''"
| "exn_class (NonRetryableError _) = ''NonRetryableError''"
| "exn_class (StateStoreUnavailable _) = ''StateStoreUnavailable''"
| "exn_class (FailurePublishFailed _) = ''FailurePublishFailed''"
| "exn_class (ProducerFenced _) = ''ProducerFenced''"
| "exn_class (ConsumerConfigError _) = ''ConsumerConfigError''"
| "exn_class (DeliveryFailed _) = ''DeliveryFailed''"
| "exn_class (DeliveryTimeout _) = ''DeliveryTimeout''"
| "exn_class (HTTPException _ _) = ''HTTPException''"
| "exn_class (KafkaException _ _) = ''KafkaException''"
| "exn_class (BufferError _) = ''BufferError''"
| "exn_class (ValueError _) = ''ValueError''"
| "exn_class (OtherError c _) = c"

fun exn_text :: "exn \<Rightarrow> string" where
  "exn_text (RetryableError s) = s"
| "exn_text (NonRetryableError s) = s"
| "exn_text (StateStoreUnavailable s) = s"
| "exn_text (FailurePublishFailed s) = s"
| "exn_text (ProducerFenced s) = s"
| "exn_text (ConsumerConfigError s) = s"
| "exn_text (DeliveryFailed s) = s"
| "exn_text (DeliveryTimeout s) = s"
| "exn_text (HTTPException _ s) = s"
| "exn_text (KafkaException _ s) = s"
| "exn_text (BufferError s) = s"
| "exn_text (ValueError s) = s"
| "exn_text (OtherError _ s) = s"

datatype 'a outcome = Ok 'a | Raise exn | Exit int

type_synonym ('s, 'a) comp = "'s \<Rightarrow> 'a outcome \<times> 's"

definition ret :: "'a \<Rightarrow> ('s, 'a) comp" where
  "ret a s = (Ok a, s)"

definition raise :: "exn \<Rightarrow> ('s, 'a) comp" where
  "raise e s = (Raise e, s)"

definition hard_exit :: "int \<Rightarrow> ('s, 'a) comp" where
  "hard_exit n s = (Exit n, s)"

definition modify :: "('s \<Rightarrow> 's) \<Rightarrow> ('s, unit) comp" where
  "modify f s = (Ok (), f s)"

definition gets :: "('s \<Rightarrow> 'a) \<Rightarrow> ('s, 'a) comp" where
  "gets f s = (Ok (f s), s)"

text \<open>Sequencing: the next statement runs only after a normal return.\<close>

definition bindC :: "('s, 'a) comp \<Rightarrow> ('a \<Rightarrow> ('s, 'b) comp) \<Rightarrow> ('s, 'b) comp" where
  "bindC m f s =
     (case m s of
        (Ok a, s') \<Rightarrow> f a s'
      | (Raise e, s') \<Rightarrow> (Raise e, s')
      | (Exit n, s') \<Rightarrow> (Exit n, s'))"

abbreviation thenC :: "('s, 'a) comp \<Rightarrow> ('s, 'b) comp \<Rightarrow> ('s, 'b) comp" where
  "thenC m k \<equiv> bindC m (\<lambda>_. k)"

text \<open>\<^verbatim>\<open>try: m except e: h e\<close>; the handler re-raises what it does not handle.\<close>

definition tryC :: "('s, 'a) comp \<Rightarrow> (exn \<Rightarrow> ('s, 'a) comp) \<Rightarrow> ('s, 'a) comp" where
  "tryC m h s =
     (case m s of
        (Ok a, s') \<Rightarrow> (Ok a, s')
      | (Raise e, s') \<Rightarrow> h e s'
      | (Exit n, s') \<Rightarrow> (Exit n, s'))"

text \<open>\<^verbatim>\<open>try: m finally: f\<close>: the clean-up runs on return and on raise, not on \<^verbatim>\<open>os._exit\<close>, and an
  exception it raises replaces the pending one.\<close>

definition finallyC :: "('s, 'a) comp \<Rightarrow> ('s, unit) comp \<Rightarrow> ('s, 'a) comp" where
  "finallyC m f s =
     (case m s of
        (Ok a, s') \<Rightarrow> (case f s' of (Ok _, t) \<Rightarrow> (Ok a, t) | (Raise e, t) \<Rightarrow> (Raise e, t)
                                  | (Exit n, t) \<Rightarrow> (Exit n, t))
      | (Raise e, s') \<Rightarrow> (case f s' of (Ok _, t) \<Rightarrow> (Raise e, t) | (Raise e', t) \<Rightarrow> (Raise e', t)
                                     | (Exit n, t) \<Rightarrow> (Exit n, t))
      | (Exit n, s') \<Rightarrow> (Exit n, s'))"

text \<open>\<^verbatim>\<open>for x in xs: f(x)\<close>.\<close>

fun forC :: "'a list \<Rightarrow> ('a \<Rightarrow> ('s, unit) comp) \<Rightarrow> ('s, unit) comp" where
  "forC [] f = ret ()"
| "forC (x # xs) f = thenC (f x) (forC xs f)"

section \<open>Integers and text\<close>

definition digit_char :: "nat \<Rightarrow> char" where
  "digit_char d = char_of (48 + d)"

definition is_digit :: "char \<Rightarrow> bool" where
  "is_digit c \<longleftrightarrow> 48 \<le> (of_char c :: nat) \<and> (of_char c :: nat) \<le> 57"

definition digit_value :: "char \<Rightarrow> nat" where
  "digit_value c = of_char c - 48"

fun str_of_nat :: "nat \<Rightarrow> string" where
  "str_of_nat n =
     (if n < 10 then [digit_char n] else str_of_nat (n div 10) @ [digit_char (n mod 10)])"

declare str_of_nat.simps [simp del]

text \<open>\<^verbatim>\<open>str(n)\<close> for an integer.\<close>

definition py_str :: "int \<Rightarrow> string" where
  "py_str n = (if n < 0 then CHR ''-'' # str_of_nat (nat (- n)) else str_of_nat (nat n))"

text \<open>The ASCII characters \<^verbatim>\<open>str.isspace\<close> accepts: tab to carriage return, the separators 28 to
  31, and space.\<close>

definition is_space :: "char \<Rightarrow> bool" where
  "is_space c \<longleftrightarrow>
     (let n = (of_char c :: nat) in (9 \<le> n \<and> n \<le> 13) \<or> (28 \<le> n \<and> n \<le> 32))"

definition strip :: "string \<Rightarrow> string" where
  "strip s = rev (dropWhile is_space (rev (dropWhile is_space s)))"

text \<open>Digits with single underscores between them; the flag says whether a digit was just read.\<close>

fun digits_value :: "nat \<Rightarrow> bool \<Rightarrow> string \<Rightarrow> nat option" where
  "digits_value acc d [] = (if d then Some acc else None)"
| "digits_value acc d (c # cs) =
     (if is_digit c then digits_value (10 * acc + digit_value c) True cs
      else if c = CHR ''_'' \<and> d then digits_value acc False cs
      else None)"

text \<open>\<^verbatim>\<open>int(s)\<close> for a string, \<open>None\<close> for the \<^verbatim>\<open>ValueError\<close>.\<close>

definition py_int :: "string \<Rightarrow> int option" where
  "py_int s =
     (case strip s of
        [] \<Rightarrow> None
      | c # cs \<Rightarrow>
          if c = CHR ''-'' then map_option (\<lambda>n. - int n) (digits_value 0 False cs)
          else if c = CHR ''+'' then map_option int (digits_value 0 False cs)
          else map_option int (digits_value 0 False (c # cs)))"

text \<open>\<^verbatim>\<open>s.split(",")\<close> for a one-character separator: always at least one part.\<close>

fun split_on :: "char \<Rightarrow> string \<Rightarrow> string list" where
  "split_on d [] = [[]]"
| "split_on d (c # cs) =
     (if c = d then [] # split_on d cs
      else (case split_on d cs of p # ps \<Rightarrow> (c # p) # ps | [] \<Rightarrow> [[c]]))"

text \<open>An apostrophe and an em dash (U+2014), for message texts.\<close>

definition apostrophe :: string where
  "apostrophe = [char_of (39 :: nat)]"

definition em_dash :: string where
  "em_dash = [char_of (226 :: nat), char_of (128 :: nat), char_of (148 :: nat)]"

section \<open>UTF-8\<close>

definition is_cont :: "char \<Rightarrow> bool" where
  "is_cont c \<longleftrightarrow> (let n = (of_char c :: nat) in 128 \<le> n \<and> n \<le> 191)"

text \<open>Well-formed UTF-8: no overlong forms, no surrogates, nothing above U+10FFFF.\<close>

fun utf8_valid :: "bytes \<Rightarrow> bool" where
  "utf8_valid [] = True"
| "utf8_valid (a # rest) =
     (let n = (of_char a :: nat) in
      if n \<le> 127 then utf8_valid rest
      else if 194 \<le> n \<and> n \<le> 223 then
        (case rest of b # r \<Rightarrow> is_cont b \<and> utf8_valid r | _ \<Rightarrow> False)
      else if 224 \<le> n \<and> n \<le> 239 then
        (case rest of
           b # c # r \<Rightarrow> is_cont b \<and> is_cont c \<and> (n = 224 \<longrightarrow> 160 \<le> (of_char b :: nat))
              \<and> (n = 237 \<longrightarrow> (of_char b :: nat) \<le> 159) \<and> utf8_valid r
         | _ \<Rightarrow> False)
      else if 240 \<le> n \<and> n \<le> 244 then
        (case rest of
           b # c # d # r \<Rightarrow> is_cont b \<and> is_cont c \<and> is_cont d
              \<and> (n = 240 \<longrightarrow> 144 \<le> (of_char b :: nat))
              \<and> (n = 244 \<longrightarrow> (of_char b :: nat) \<le> 143) \<and> utf8_valid r
         | _ \<Rightarrow> False)
      else False)"

text \<open>\<^verbatim>\<open>b.decode("utf-8")\<close>; \<open>None\<close> is the \<^verbatim>\<open>UnicodeDecodeError\<close>.\<close>

definition utf8_decode :: "bytes \<Rightarrow> string option" where
  "utf8_decode b = (if utf8_valid b then Some b else None)"

text \<open>\<^verbatim>\<open>len(s)\<close> and \<^verbatim>\<open>s[:n]\<close> count code points, that is, bytes that do not continue one.\<close>

definition code_points :: "string \<Rightarrow> nat" where
  "code_points s = length (filter (\<lambda>c. \<not> is_cont c) s)"

fun take_code_points :: "nat \<Rightarrow> string \<Rightarrow> string" where
  "take_code_points n [] = []"
| "take_code_points n (c # cs) =
     (if is_cont c then c # take_code_points n cs
      else (case n of 0 \<Rightarrow> [] | Suc m \<Rightarrow> c # take_code_points m cs))"

definition is_ascii :: "string \<Rightarrow> bool" where
  "is_ascii s \<longleftrightarrow> list_all (\<lambda>c. (of_char c :: nat) \<le> 127) s"


section \<open>Laws of computations\<close>

lemma bindC_ret [simp]: "bindC (ret a) f = f a"
  by (simp add: bindC_def ret_def fun_eq_iff)

lemma bindC_raise [simp]: "bindC (raise e) f = raise e"
  by (simp add: bindC_def raise_def fun_eq_iff)

lemma bindC_gets [simp]: "bindC (gets g) f s = f (g s) s"
  by (simp add: bindC_def gets_def)

lemma bindC_modify [simp]: "bindC (modify g) f s = f () (g s)"
  by (simp add: bindC_def modify_def)

lemma bindC_assoc: "bindC (bindC m f) g = bindC m (\<lambda>a. bindC (f a) g)"
  by (auto simp: bindC_def fun_eq_iff split: prod.splits outcome.splits)

lemma tryC_ret [simp]: "tryC (ret a) h = ret a"
  by (simp add: tryC_def ret_def fun_eq_iff)

lemma tryC_raise [simp]: "tryC (raise e) h = h e"
  by (simp add: tryC_def raise_def fun_eq_iff)

lemma bindC_OkE:
  assumes "bindC m f s = (Ok b, t)"
  obtains a s' where "m s = (Ok a, s')" and "f a s' = (Ok b, t)"
  using assms by (auto simp: bindC_def split: prod.splits outcome.splits)

lemma bindC_OkI: "m s = (Ok a, s') \<Longrightarrow> bindC m f s = f a s'"
  by (simp add: bindC_def)

lemma bindC_RaiseI: "m s = (Raise e, s') \<Longrightarrow> bindC m f s = (Raise e, s')"
  by (simp add: bindC_def)

lemma tryC_OkI: "m s = (Ok a, s') \<Longrightarrow> tryC m h s = (Ok a, s')"
  by (simp add: tryC_def)

lemma tryC_RaiseI: "m s = (Raise e, s') \<Longrightarrow> tryC m h s = h e s'"
  by (simp add: tryC_def)

lemma tryC_ExitI: "m s = (Exit n, s') \<Longrightarrow> tryC m h s = (Exit n, s')"
  by (simp add: tryC_def)

lemmas step_rules = bindC_OkI bindC_RaiseI tryC_OkI tryC_RaiseI tryC_ExitI

text \<open>A transitive and reflexive relation between the states before and after, kept by every
  statement, is kept by their composition. Frame conditions and monotonicity facts (the trace of
  client calls only grows) are instances.\<close>

definition keeps :: "('s \<Rightarrow> 's \<Rightarrow> bool) \<Rightarrow> ('s, 'a) comp \<Rightarrow> bool" where
  "keeps R m \<longleftrightarrow> (\<forall>s. R s (snd (m s)))"

lemma keepsI: "(\<And>s. R s (snd (m s))) \<Longrightarrow> keeps R m"
  by (simp add: keeps_def)

lemma keepsD: "keeps R m \<Longrightarrow> m s = (r, t) \<Longrightarrow> R s t"
  by (metis keeps_def snd_conv)

lemma keeps_ret [keeps_rules]: "reflp R \<Longrightarrow> keeps R (ret a)"
  by (simp add: keeps_def ret_def reflp_def)

lemma keeps_raise [keeps_rules]: "reflp R \<Longrightarrow> keeps R (raise e)"
  by (simp add: keeps_def raise_def reflp_def)

lemma keeps_exit [keeps_rules]: "reflp R \<Longrightarrow> keeps R (hard_exit n)"
  by (simp add: keeps_def hard_exit_def reflp_def)

lemma keeps_gets [keeps_rules]: "reflp R \<Longrightarrow> keeps R (gets f)"
  by (simp add: keeps_def gets_def reflp_def)

lemma keeps_modify: "(\<And>s. R s (f s)) \<Longrightarrow> keeps R (modify f)"
  by (simp add: keeps_def modify_def)

lemma keeps_bind [keeps_rules]:
  assumes "transp R" and m: "keeps R m" and f: "\<And>a. keeps R (f a)"
  shows "keeps R (bindC m f)"
proof (rule keepsI)
  fix s
  obtain r s' where ms: "m s = (r, s')" by (cases "m s")
  have 1: "R s s'" using keepsD [OF m ms] .
  show "R s (snd (bindC m f s))"
  proof (cases r)
    case (Ok a)
    have "R s' (snd (f a s'))" using f by (simp add: keeps_def)
    then show ?thesis using 1 ms Ok \<open>transp R\<close> by (auto simp: bindC_def dest: transpD)
  qed (use 1 ms in \<open>auto simp: bindC_def\<close>)
qed

lemma keeps_try [keeps_rules]:
  assumes "transp R" and m: "keeps R m" and h: "\<And>e. keeps R (h e)"
  shows "keeps R (tryC m h)"
proof (rule keepsI)
  fix s
  obtain r s' where ms: "m s = (r, s')" by (cases "m s")
  have 1: "R s s'" using keepsD [OF m ms] .
  show "R s (snd (tryC m h s))"
  proof (cases r)
    case (Raise e)
    have "R s' (snd (h e s'))" using h by (simp add: keeps_def)
    then show ?thesis using 1 ms Raise \<open>transp R\<close> by (auto simp: tryC_def dest: transpD)
  qed (use 1 ms in \<open>auto simp: tryC_def\<close>)
qed

lemma keeps_finally [keeps_rules]:
  assumes "transp R" and m: "keeps R m" and f: "keeps R f"
  shows "keeps R (finallyC m f)"
proof (rule keepsI)
  fix s
  obtain r s' where ms: "m s = (r, s')" by (cases "m s")
  obtain q t where fs: "f s' = (q, t)" by (cases "f s'")
  have "R s s'" "R s' t" using keepsD [OF m ms] keepsD [OF f fs] .
  then have "R s t" using \<open>transp R\<close> by (blast dest: transpD)
  with \<open>R s s'\<close> show "R s (snd (finallyC m f s))"
    using ms fs by (cases r; cases q) (auto simp: finallyC_def)
qed

lemma keeps_for [keeps_rules]:
  assumes "reflp R" and "transp R" and "\<And>x. keeps R (f x)"
  shows "keeps R (forC xs f)"
  by (induction xs) (auto intro: keeps_rules assms)

lemma keeps_if [keeps_rules]: "keeps R m \<Longrightarrow> keeps R n \<Longrightarrow> keeps R (if b then m else n)"
  by simp

lemma keeps_option [keeps_rules]:
  "keeps R m \<Longrightarrow> (\<And>a. keeps R (f a)) \<Longrightarrow> keeps R (case x of None \<Rightarrow> m | Some a \<Rightarrow> f a)"
  by (cases x) auto

section \<open>Laws of text\<close>

lemma of_char_digit: "d < 10 \<Longrightarrow> (of_char (digit_char d) :: nat) = 48 + d"
  by (simp add: digit_char_def of_char_of)

lemma is_digit_digit_char [simp]: "d < 10 \<Longrightarrow> is_digit (digit_char d)"
  by (simp add: is_digit_def of_char_digit)

lemma digit_value_digit_char [simp]: "d < 10 \<Longrightarrow> digit_value (digit_char d) = d"
  by (simp add: digit_value_def of_char_digit)

lemma is_digit_not_space: "is_digit c \<Longrightarrow> \<not> is_space c"
  by (auto simp: is_digit_def is_space_def Let_def)

lemma sign_chars [simp]:
  "\<not> is_digit (CHR ''-'')" "\<not> is_digit (CHR ''+'')" "\<not> is_digit (CHR ''_'')"
  "\<not> is_space (CHR ''-'')" "\<not> is_space (CHR ''+'')"
  by (simp_all add: is_digit_def is_space_def)

lemma str_of_nat_digits: "list_all is_digit (str_of_nat n)"
proof (induction n rule: str_of_nat.induct)
  case (1 n)
  then show ?case by (subst str_of_nat.simps) auto
qed

lemma str_of_nat_nonempty [simp]: "str_of_nat n \<noteq> []"
  by (subst str_of_nat.simps) simp

lemma digits_value_append:
  "list_all is_digit xs \<Longrightarrow> xs \<noteq> [] \<Longrightarrow>
   digits_value acc d (xs @ ys) =
     digits_value (foldl (\<lambda>a c. 10 * a + digit_value c) acc xs) True ys"
proof (induction xs arbitrary: acc d)
  case Nil
  then show ?case by simp
next
  case (Cons x xs)
  show ?case
  proof (cases "xs = []")
    case True
    with Cons.prems show ?thesis by simp
  next
    case False
    with Cons show ?thesis by simp
  qed
qed

lemma foldl_str_of_nat: "foldl (\<lambda>a c. 10 * a + digit_value c) 0 (str_of_nat n) = n"
proof (induction n rule: str_of_nat.induct)
  case (1 n)
  show ?case
  proof (cases "n < 10")
    case True
    then show ?thesis by (subst str_of_nat.simps) simp
  next
    case False
    with 1 show ?thesis by (subst str_of_nat.simps) simp
  qed
qed

lemma digits_value_str_of_nat: "digits_value 0 False (str_of_nat n) = Some n"
  using digits_value_append [OF str_of_nat_digits str_of_nat_nonempty, of 0 False n "[]"]
  by (simp add: foldl_str_of_nat)

lemma strip_id:
  assumes "s \<noteq> []" and "\<not> is_space (hd s)" and "\<not> is_space (last s)"
  shows "strip s = s"
proof -
  have "dropWhile is_space s = s" using assms by (cases s) auto
  moreover have "dropWhile is_space (rev s) = rev s"
    using assms by (cases s rule: rev_cases) auto
  ultimately show ?thesis by (simp add: strip_def)
qed

lemma str_of_nat_ends: "is_digit (hd (str_of_nat n))" "is_digit (last (str_of_nat n))"
  using str_of_nat_digits [of n] str_of_nat_nonempty [of n]
  by (auto simp: list_all_iff hd_in_set last_in_set)

lemma strip_str_of_nat: "strip (str_of_nat n) = str_of_nat n"
  by (rule strip_id) (simp_all add: is_digit_not_space str_of_nat_ends)

lemma strip_neg: "strip (CHR ''-'' # str_of_nat n) = CHR ''-'' # str_of_nat n"
  by (rule strip_id) (simp_all add: is_digit_not_space str_of_nat_ends)

lemma py_int_py_str [simp]: "py_int (py_str n) = Some n"
proof (cases "n < 0")
  case True
  then show ?thesis by (simp add: py_int_def py_str_def strip_neg digits_value_str_of_nat)
next
  case False
  obtain c cs where c: "str_of_nat (nat n) = c # cs" by (cases "str_of_nat (nat n)") auto
  then have "is_digit c" using str_of_nat_ends [of "nat n"] by simp
  with False c show ?thesis
    using digits_value_str_of_nat [of "nat n"] strip_str_of_nat [of "nat n"]
    by (auto simp: py_int_def py_str_def)
qed

lemma py_str_inject [simp]: "py_str m = py_str n \<longleftrightarrow> m = n"
  by (metis option.inject py_int_py_str)

lemma is_ascii_append [simp]: "is_ascii (a @ b) \<longleftrightarrow> is_ascii a \<and> is_ascii b"
  by (simp add: is_ascii_def)

lemma utf8_valid_ascii: "is_ascii s \<Longrightarrow> utf8_valid s"
  by (induction s) (auto simp: is_ascii_def)

lemma is_ascii_digits: "list_all is_digit s \<Longrightarrow> is_ascii s"
  by (induction s) (auto simp: is_ascii_def is_digit_def)

lemma is_ascii_py_str [simp]: "is_ascii (py_str n)"
proof -
  have "is_ascii (str_of_nat m)" for m by (rule is_ascii_digits [OF str_of_nat_digits])
  then show ?thesis by (auto simp: py_str_def is_ascii_def)
qed

lemma utf8_decode_ascii: "is_ascii s \<Longrightarrow> utf8_decode s = Some s"
  by (simp add: utf8_decode_def utf8_valid_ascii)

lemma utf8_decode_py_str [simp]: "utf8_decode (py_str n) = Some (py_str n)"
  by (simp add: utf8_decode_ascii)

lemma utf8_decode_SomeD: "utf8_decode b = Some s \<Longrightarrow> s = b"
  by (simp add: utf8_decode_def split: if_splits)

lemma split_on_nonempty [simp]: "split_on d s \<noteq> []"
  by (cases s) (auto split: list.splits)

lemma take_code_points_length: "code_points (take_code_points n s) \<le> n"
  by (induction n s rule: take_code_points.induct) (auto simp: code_points_def split: nat.splits)

end
