(* ===== verification/Json_Values.thy ===== *)
theory Json_Values
  imports Py_Base
begin

text \<open>
  JSON values, the bytes that carry them, and the interface to pydantic.

  \<^item> \<open>wire\<close> is a message value up to what \<^verbatim>\<open>json.loads\<close> makes of it: the bytes of a JSON
    document are represented by the document, every other byte string by itself.
  \<^item> \<open>pydantic\<close> collects what the models rely on from the third-party validation library for
    scalar fields: the coercion of a JSON value to \<^verbatim>\<open>int\<close>, \<^verbatim>\<open>str\<close> or \<^verbatim>\<open>datetime\<close>, and
    the text a datetime is dumped as. It is a parameter of the model; \<open>pydantic_ok\<close> names the
    documented behaviour used (a value that already has the field's type is taken as it is, and a
    dumped datetime is read back).
\<close>

text \<open>A timezone-aware UTC datetime, as microseconds since the epoch.\<close>

type_synonym datetime = int

datatype json =
    JNull
  | JBool bool
  | JInt int
  | JReal rat
  | JStr string
  | JArr "json list"
  | JObj "(string \<times> json) list"

type_synonym json_object = "(string \<times> json) list"

datatype wire = JsonBytes json | OtherBytes bytes

text \<open>\<^verbatim>\<open>json.dumps(v).encode("utf-8")\<close> and \<^verbatim>\<open>json.loads(raw.decode("utf-8"))\<close>.\<close>

definition json_dumps :: "json \<Rightarrow> wire" where
  "json_dumps j = JsonBytes j"

fun json_loads :: "wire \<Rightarrow> json option" where
  "json_loads (JsonBytes j) = Some j"
| "json_loads (OtherBytes _) = None"

record pydantic =
  as_int :: "json \<Rightarrow> int option"
  as_str :: "json \<Rightarrow> string option"
  as_datetime :: "json \<Rightarrow> datetime option"
  dump_datetime :: "datetime \<Rightarrow> string"

definition pydantic_ok :: "pydantic \<Rightarrow> bool" where
  "pydantic_ok P \<longleftrightarrow>
     (\<forall>n. as_int P (JInt n) = Some n) \<and>
     (\<forall>s. as_str P (JStr s) = Some s) \<and>
     (\<forall>t. as_datetime P (JStr (dump_datetime P t)) = Some t)"

text \<open>A concrete instance of the interface, strict on every scalar: what the witnesses run with.\<close>

fun strict_int :: "json \<Rightarrow> int option" where
  "strict_int (JInt n) = Some n"
| "strict_int _ = None"

fun strict_str :: "json \<Rightarrow> string option" where
  "strict_str (JStr s) = Some s"
| "strict_str _ = None"

fun strict_datetime :: "json \<Rightarrow> datetime option" where
  "strict_datetime (JStr s) = py_int s"
| "strict_datetime _ = None"

definition strict_pydantic :: pydantic where
  "strict_pydantic =
     \<lparr>as_int = strict_int, as_str = strict_str, as_datetime = strict_datetime,
      dump_datetime = py_str\<rparr>"

lemma json_loads_dumps [simp]: "json_loads (json_dumps j) = Some j"
  by (simp add: json_dumps_def)

lemma pydantic_okD [simp]:
  assumes "pydantic_ok P"
  shows "as_int P (JInt n) = Some n" "as_str P (JStr s) = Some s"
    "as_datetime P (JStr (dump_datetime P t)) = Some t"
  using assms by (auto simp: pydantic_ok_def)

lemma strict_pydantic_ok [simp]: "pydantic_ok strict_pydantic"
  by (simp add: pydantic_ok_def strict_pydantic_def)

end
