(* ===== verification/Events.thy ===== *)
theory Events
  imports Json_Values "HOL-Library.Monad_Syntax"
begin

text \<open>
  \<^verbatim>\<open>src/order_service/events.py\<close>: the event contract shared by the order service and the three
  consumer services. The enums are datatypes, the transition tables are dictionaries given by their
  items in source order, the pydantic models are records with a validating constructor and a reader
  from JSON. A \<^verbatim>\<open>ValueError\<close> (pydantic's \<^verbatim>\<open>ValidationError\<close> is one) is \<open>None\<close>.
\<close>

section \<open>The vocabulary\<close>

datatype event_type = ORDER_CREATED | PACKED | SHIPPED | DELIVERED

datatype order_state = S_CREATED | S_PACKED | S_SHIPPED | S_DELIVERED

datatype payment_method = CARD | BKASH | NAGAD

fun event_type_value :: "event_type \<Rightarrow> string" where
  "event_type_value ORDER_CREATED = ''ORDER_CREATED''"
| "event_type_value PACKED = ''PACKED''"
| "event_type_value SHIPPED = ''SHIPPED''"
| "event_type_value DELIVERED = ''DELIVERED''"

fun order_state_value :: "order_state \<Rightarrow> string" where
  "order_state_value S_CREATED = ''CREATED''"
| "order_state_value S_PACKED = ''PACKED''"
| "order_state_value S_SHIPPED = ''SHIPPED''"
| "order_state_value S_DELIVERED = ''DELIVERED''"

fun payment_method_value :: "payment_method \<Rightarrow> string" where
  "payment_method_value CARD = ''CARD''"
| "payment_method_value BKASH = ''BKASH''"
| "payment_method_value NAGAD = ''NAGAD''"

text \<open>\<^verbatim>\<open>for event_type in EventType\<close>: the members in definition order; and the calls
  \<^verbatim>\<open>EventType(s)\<close>, \<^verbatim>\<open>OrderState(s)\<close>, \<^verbatim>\<open>PaymentMethod(s)\<close>.\<close>

definition all_event_types :: "event_type list" where
  "all_event_types = [ORDER_CREATED, PACKED, SHIPPED, DELIVERED]"

definition event_type_of :: "string \<Rightarrow> event_type option" where
  "event_type_of s = find (\<lambda>e. event_type_value e = s) all_event_types"

definition order_state_of :: "string \<Rightarrow> order_state option" where
  "order_state_of s =
     find (\<lambda>x. order_state_value x = s) [S_CREATED, S_PACKED, S_SHIPPED, S_DELIVERED]"

definition payment_method_of :: "string \<Rightarrow> payment_method option" where
  "payment_method_of s = find (\<lambda>x. payment_method_value x = s) [CARD, BKASH, NAGAD]"

section \<open>The transition tables\<close>

definition LEGAL_PREDECESSOR_items :: "(event_type \<times> order_state option) list" where
  "LEGAL_PREDECESSOR_items =
     [(ORDER_CREATED, None), (PACKED, Some S_CREATED), (SHIPPED, Some S_PACKED),
      (DELIVERED, Some S_SHIPPED)]"

fun LEGAL_PREDECESSOR :: "event_type \<Rightarrow> order_state option" where
  "LEGAL_PREDECESSOR ORDER_CREATED = None"
| "LEGAL_PREDECESSOR PACKED = Some S_CREATED"
| "LEGAL_PREDECESSOR SHIPPED = Some S_PACKED"
| "LEGAL_PREDECESSOR DELIVERED = Some S_SHIPPED"

fun RESULTING_STATE :: "event_type \<Rightarrow> order_state" where
  "RESULTING_STATE ORDER_CREATED = S_CREATED"
| "RESULTING_STATE PACKED = S_PACKED"
| "RESULTING_STATE SHIPPED = S_SHIPPED"
| "RESULTING_STATE DELIVERED = S_DELIVERED"

text \<open>The dict comprehension over \<^verbatim>\<open>LEGAL_PREDECESSOR.items()\<close>, later items overwriting earlier
  ones.\<close>

definition EXPECTED_NEXT_EVENT :: "order_state option \<rightharpoonup> event_type" where
  "EXPECTED_NEXT_EVENT =
     foldl (\<lambda>m (event_type, predecessor). m(predecessor \<mapsto> event_type)) Map.empty
       LEGAL_PREDECESSOR_items"

definition is_legal_transition :: "event_type \<Rightarrow> order_state option \<Rightarrow> bool" where
  "is_legal_transition event_type current \<longleftrightarrow> LEGAL_PREDECESSOR event_type = current"

section \<open>The models\<close>

record order_item =
  sku :: string
  qty :: int
  unit_price :: int

definition line_total :: "order_item \<Rightarrow> int" where
  "line_total i = qty i * unit_price i"

record payment_info =
  pay_method :: payment_method
  pay_reference :: string
  pay_amount :: int

record order_created_payload =
  ocp_customer_id :: string
  ocp_items :: "order_item list"
  ocp_total_amount :: int
  ocp_payment :: payment_info

record shipped_payload =
  carrier :: string
  tracking_number :: string

text \<open>The field constraints (\<^verbatim>\<open>min_length\<close>, \<^verbatim>\<open>gt\<close>, \<^verbatim>\<open>ge\<close>), as validating constructors.\<close>

definition mk_order_item :: "string \<Rightarrow> int \<Rightarrow> int \<Rightarrow> order_item option" where
  "mk_order_item s q u =
     (if s \<noteq> [] \<and> 0 < q \<and> 0 < u then Some \<lparr>sku = s, qty = q, unit_price = u\<rparr> else None)"

definition mk_payment_info :: "payment_method \<Rightarrow> string \<Rightarrow> int \<Rightarrow> payment_info option" where
  "mk_payment_info m r a =
     (if r \<noteq> [] \<and> 0 \<le> a then Some \<lparr>pay_method = m, pay_reference = r, pay_amount = a\<rparr>
      else None)"

definition mk_shipped_payload :: "string \<Rightarrow> string \<Rightarrow> shipped_payload option" where
  "mk_shipped_payload c t =
     (if c \<noteq> [] \<and> t \<noteq> [] then Some \<lparr>carrier = c, tracking_number = t\<rparr> else None)"

definition item_sum :: "order_item list \<Rightarrow> int" where
  "item_sum items = sum_list (map line_total items)"

definition validate_totals :: "order_created_payload \<Rightarrow> order_created_payload option" where
  "validate_totals p =
     (if ocp_total_amount p \<noteq> item_sum (ocp_items p) then None
      else if pay_amount (ocp_payment p) \<noteq> ocp_total_amount p then None
      else Some p)"

definition mk_order_created_payload ::
    "string \<Rightarrow> order_item list \<Rightarrow> int \<Rightarrow> payment_info \<Rightarrow> order_created_payload option" where
  "mk_order_created_payload c items amount pay =
     (if c = [] \<or> items = [] then None
      else validate_totals
        \<lparr>ocp_customer_id = c, ocp_items = items, ocp_total_amount = amount, ocp_payment = pay\<rparr>)"

section \<open>Reading and dumping JSON\<close>

fun json_fields :: "json \<Rightarrow> json_object option" where
  "json_fields (JObj kvs) = Some kvs"
| "json_fields _ = None"

fun json_elements :: "json \<Rightarrow> json list option" where
  "json_elements (JArr xs) = Some xs"
| "json_elements _ = None"

fun json_text :: "json \<Rightarrow> string option" where
  "json_text (JStr s) = Some s"
| "json_text _ = None"

fun traverse :: "('a \<Rightarrow> 'b option) \<Rightarrow> 'a list \<Rightarrow> 'b list option" where
  "traverse f [] = Some []"
| "traverse f (x # xs) = do { y \<leftarrow> f x; ys \<leftarrow> traverse f xs; Some (y # ys) }"

definition order_item_of :: "pydantic \<Rightarrow> json \<Rightarrow> order_item option" where
  "order_item_of P j = do {
     kvs \<leftarrow> json_fields j;
     s \<leftarrow> map_of kvs ''sku'' \<bind> as_str P;
     q \<leftarrow> map_of kvs ''qty'' \<bind> as_int P;
     u \<leftarrow> map_of kvs ''unit_price'' \<bind> as_int P;
     mk_order_item s q u }"

definition payment_info_of :: "pydantic \<Rightarrow> json \<Rightarrow> payment_info option" where
  "payment_info_of P j = do {
     kvs \<leftarrow> json_fields j;
     m \<leftarrow> map_of kvs ''method'' \<bind> json_text;
     m' \<leftarrow> payment_method_of m;
     r \<leftarrow> map_of kvs ''reference'' \<bind> as_str P;
     a \<leftarrow> map_of kvs ''amount'' \<bind> as_int P;
     mk_payment_info m' r a }"

definition order_created_payload_of ::
    "pydantic \<Rightarrow> json_object \<Rightarrow> order_created_payload option" where
  "order_created_payload_of P kvs = do {
     c \<leftarrow> map_of kvs ''customer_id'' \<bind> as_str P;
     js \<leftarrow> map_of kvs ''items'' \<bind> json_elements;
     items \<leftarrow> traverse (order_item_of P) js;
     amount \<leftarrow> map_of kvs ''total_amount'' \<bind> as_int P;
     pay \<leftarrow> map_of kvs ''payment'' \<bind> payment_info_of P;
     mk_order_created_payload c items amount pay }"

definition shipped_payload_of :: "pydantic \<Rightarrow> json_object \<Rightarrow> shipped_payload option" where
  "shipped_payload_of P kvs = do {
     c \<leftarrow> map_of kvs ''carrier'' \<bind> as_str P;
     t \<leftarrow> map_of kvs ''tracking_number'' \<bind> as_str P;
     mk_shipped_payload c t }"

text \<open>\<^verbatim>\<open>model_dump\<close>.\<close>

definition dump_order_item :: "order_item \<Rightarrow> json" where
  "dump_order_item i =
     JObj [(''sku'', JStr (sku i)), (''qty'', JInt (qty i)), (''unit_price'', JInt (unit_price i))]"

definition dump_payment_info :: "payment_info \<Rightarrow> json" where
  "dump_payment_info p =
     JObj [(''method'', JStr (payment_method_value (pay_method p))),
           (''reference'', JStr (pay_reference p)), (''amount'', JInt (pay_amount p))]"

definition dump_order_created_payload :: "order_created_payload \<Rightarrow> json_object" where
  "dump_order_created_payload p =
     [(''customer_id'', JStr (ocp_customer_id p)),
      (''items'', JArr (map dump_order_item (ocp_items p))),
      (''total_amount'', JInt (ocp_total_amount p)),
      (''payment'', dump_payment_info (ocp_payment p))]"

text \<open>\<^verbatim>\<open>PAYLOAD_MODELS.get(event_type)\<close> followed by \<^verbatim>\<open>model.model_validate(payload)\<close>.\<close>

datatype payload_model =
    OrderCreatedPayload order_created_payload
  | ShippedPayload shipped_payload

fun PAYLOAD_MODELS :: "pydantic \<Rightarrow> event_type \<Rightarrow> (json_object \<Rightarrow> payload_model option) option" where
  "PAYLOAD_MODELS P ORDER_CREATED =
     Some (\<lambda>kvs. map_option OrderCreatedPayload (order_created_payload_of P kvs))"
| "PAYLOAD_MODELS P SHIPPED = Some (\<lambda>kvs. map_option ShippedPayload (shipped_payload_of P kvs))"
| "PAYLOAD_MODELS P _ = None"

definition validate_payload ::
    "pydantic \<Rightarrow> event_type \<Rightarrow> json_object \<Rightarrow> exn + payload_model option" where
  "validate_payload P event_type payload =
     (case PAYLOAD_MODELS P event_type of
        None \<Rightarrow> Inr None
      | Some model \<Rightarrow>
          (case model payload of
             None \<Rightarrow> Inl (ValueError ''payload does not match its schema'')
           | Some m \<Rightarrow> Inr (Some m)))"

section \<open>Lifecycle events\<close>

record lifecycle_event =
  event_id :: string
  ev_order_id :: string
  ev_sequence :: int
  ev_type :: event_type
  occurred_at :: datetime
  payload :: json_object

text \<open>The model's constructor: \<^verbatim>\<open>sequence \<ge> 1\<close> and the payload check.\<close>

definition mk_lifecycle_event ::
    "pydantic \<Rightarrow> string \<Rightarrow> string \<Rightarrow> int \<Rightarrow> event_type \<Rightarrow> datetime \<Rightarrow> json_object \<Rightarrow>
     lifecycle_event option" where
  "mk_lifecycle_event P eid oid n et ts pl =
     (if n < 1 then None
      else (case validate_payload P et pl of
              Inl _ \<Rightarrow> None
            | Inr _ \<Rightarrow>
                Some \<lparr>event_id = eid, ev_order_id = oid, ev_sequence = n, ev_type = et,
                      occurred_at = ts, payload = pl\<rparr>))"

text \<open>\<^verbatim>\<open>LifecycleEvent.model_validate\<close>: \<open>fresh\<close> and \<open>now\<close> are what the two default factories
  return when the field is absent.\<close>

definition lifecycle_event_of ::
    "pydantic \<Rightarrow> string \<Rightarrow> datetime \<Rightarrow> json \<Rightarrow> lifecycle_event option" where
  "lifecycle_event_of P fresh now j = do {
     kvs \<leftarrow> json_fields j;
     eid \<leftarrow> (case map_of kvs ''event_id'' of None \<Rightarrow> Some fresh | Some v \<Rightarrow> as_str P v);
     oid \<leftarrow> map_of kvs ''order_id'' \<bind> as_str P;
     n \<leftarrow> map_of kvs ''sequence'' \<bind> as_int P;
     t \<leftarrow> map_of kvs ''event_type'' \<bind> json_text;
     et \<leftarrow> event_type_of t;
     ts \<leftarrow> (case map_of kvs ''occurred_at'' of None \<Rightarrow> Some now | Some v \<Rightarrow> as_datetime P v);
     pl \<leftarrow> (case map_of kvs ''payload'' of None \<Rightarrow> Some [] | Some v \<Rightarrow> json_fields v);
     mk_lifecycle_event P eid oid n et ts pl }"

text \<open>\<^verbatim>\<open>model_dump_json\<close>, as the document it writes.\<close>

definition dump_lifecycle_event :: "pydantic \<Rightarrow> lifecycle_event \<Rightarrow> json" where
  "dump_lifecycle_event P e =
     JObj [(''event_id'', JStr (event_id e)), (''order_id'', JStr (ev_order_id e)),
           (''sequence'', JInt (ev_sequence e)),
           (''event_type'', JStr (event_type_value (ev_type e))),
           (''occurred_at'', JStr (dump_datetime P (occurred_at e))),
           (''payload'', JObj (payload e))]"

definition as_order_created :: "pydantic \<Rightarrow> lifecycle_event \<Rightarrow> exn + order_created_payload" where
  "as_order_created P e =
     (if ev_type e \<noteq> ORDER_CREATED
      then Inl (ValueError (event_type_value (ev_type e) @ '' is not ORDER_CREATED''))
      else (case order_created_payload_of P (payload e) of
              None \<Rightarrow> Inl (ValueError ''payload does not match its schema'')
            | Some p \<Rightarrow> Inr p))"

definition as_shipped :: "pydantic \<Rightarrow> lifecycle_event \<Rightarrow> exn + shipped_payload" where
  "as_shipped P e =
     (if ev_type e \<noteq> SHIPPED
      then Inl (ValueError (event_type_value (ev_type e) @ '' is not SHIPPED''))
      else (case shipped_payload_of P (payload e) of
              None \<Rightarrow> Inl (ValueError ''payload does not match its schema'')
            | Some p \<Rightarrow> Inr p))"

text \<open>The events a constructor can have built.\<close>

definition valid_event :: "pydantic \<Rightarrow> lifecycle_event \<Rightarrow> bool" where
  "valid_event P e \<longleftrightarrow>
     1 \<le> ev_sequence e \<and> (\<exists>m. validate_payload P (ev_type e) (payload e) = Inr m)"

definition valid_item :: "order_item \<Rightarrow> bool" where
  "valid_item i \<longleftrightarrow> sku i \<noteq> [] \<and> 0 < qty i \<and> 0 < unit_price i"

definition valid_payment :: "payment_info \<Rightarrow> bool" where
  "valid_payment p \<longleftrightarrow> pay_reference p \<noteq> [] \<and> 0 \<le> pay_amount p"

section \<open>Lemmas\<close>

lemma event_type_of_value [simp]: "event_type_of (event_type_value e) = Some e"
  by (cases e) (simp_all add: event_type_of_def all_event_types_def)

lemma order_state_of_value [simp]: "order_state_of (order_state_value s) = Some s"
  by (cases s) (simp_all add: order_state_of_def)

lemma payment_method_of_value [simp]: "payment_method_of (payment_method_value m) = Some m"
  by (cases m) (simp_all add: payment_method_of_def)

lemma all_event_types_complete: "e \<in> set all_event_types"
  by (cases e) (simp_all add: all_event_types_def)

lemma LEGAL_PREDECESSOR_items_graph:
  "(e, p) \<in> set LEGAL_PREDECESSOR_items \<longleftrightarrow> LEGAL_PREDECESSOR e = p"
  by (cases e) (auto simp: LEGAL_PREDECESSOR_items_def)

lemma EXPECTED_NEXT_EVENT_simps [simp]:
  "EXPECTED_NEXT_EVENT None = Some ORDER_CREATED"
  "EXPECTED_NEXT_EVENT (Some S_CREATED) = Some PACKED"
  "EXPECTED_NEXT_EVENT (Some S_PACKED) = Some SHIPPED"
  "EXPECTED_NEXT_EVENT (Some S_SHIPPED) = Some DELIVERED"
  "EXPECTED_NEXT_EVENT (Some S_DELIVERED) = None"
  by (simp_all add: EXPECTED_NEXT_EVENT_def LEGAL_PREDECESSOR_items_def)

lemma EXPECTED_NEXT_EVENT_iff_legal:
  "EXPECTED_NEXT_EVENT s = Some e \<longleftrightarrow> is_legal_transition e s"
  by (cases s; cases e; cases "the s") (auto simp: is_legal_transition_def)

lemma is_legal_transition_unique:
  "is_legal_transition e s \<Longrightarrow> is_legal_transition e' s \<Longrightarrow> e = e'"
  by (metis EXPECTED_NEXT_EVENT_iff_legal option.inject)

lemma valid_item_mk: "valid_item i \<Longrightarrow> mk_order_item (sku i) (qty i) (unit_price i) = Some i"
  by (simp add: valid_item_def mk_order_item_def)

lemma order_item_of_dump:
  "pydantic_ok P \<Longrightarrow> valid_item i \<Longrightarrow> order_item_of P (dump_order_item i) = Some i"
  by (simp add: order_item_of_def dump_order_item_def valid_item_mk)

lemma traverse_order_item_of_dump:
  "pydantic_ok P \<Longrightarrow> list_all valid_item is \<Longrightarrow>
   traverse (order_item_of P) (map dump_order_item is) = Some is"
  by (induction "is") (simp_all add: order_item_of_dump)

lemma payment_info_of_dump:
  "pydantic_ok P \<Longrightarrow> valid_payment p \<Longrightarrow> payment_info_of P (dump_payment_info p) = Some p"
  by (simp add: payment_info_of_def dump_payment_info_def mk_payment_info_def valid_payment_def)

lemma mk_order_created_payload_SomeD:
  assumes "mk_order_created_payload c items t pay = Some p"
  shows "p = \<lparr>ocp_customer_id = c, ocp_items = items, ocp_total_amount = t, ocp_payment = pay\<rparr>"
    and "c \<noteq> []" and "items \<noteq> []" and "t = item_sum items" and "pay_amount pay = t"
  using assms
  by (auto simp: mk_order_created_payload_def validate_totals_def split: if_splits)

lemma order_created_payload_of_dump:
  assumes P: "pydantic_ok P" and mk: "mk_order_created_payload c items t pay = Some p"
    and "list_all valid_item items" and "valid_payment pay"
  shows "order_created_payload_of P (dump_order_created_payload p) = Some p"
proof -
  from mk_order_created_payload_SomeD [OF mk]
  have p: "p = \<lparr>ocp_customer_id = c, ocp_items = items, ocp_total_amount = t, ocp_payment = pay\<rparr>"
    by simp
  show ?thesis
    using P assms(3,4) mk unfolding p
    by (simp add: order_created_payload_of_def dump_order_created_payload_def
        traverse_order_item_of_dump payment_info_of_dump)
qed

lemma mk_lifecycle_event_SomeD:
  assumes "mk_lifecycle_event P eid oid n et ts pl = Some e"
  shows "e = \<lparr>event_id = eid, ev_order_id = oid, ev_sequence = n, ev_type = et,
              occurred_at = ts, payload = pl\<rparr>"
    and "valid_event P e"
  using assms
  by (auto simp: mk_lifecycle_event_def valid_event_def split: if_splits sum.splits)

lemma mk_lifecycle_event_valid:
  "valid_event P e \<Longrightarrow>
   mk_lifecycle_event P (event_id e) (ev_order_id e) (ev_sequence e) (ev_type e) (occurred_at e)
     (payload e) = Some e"
  by (auto simp: mk_lifecycle_event_def valid_event_def)

lemma lifecycle_event_of_valid:
  "lifecycle_event_of P fresh now j = Some e \<Longrightarrow> valid_event P e"
  by (auto simp: lifecycle_event_of_def Option.bind_eq_Some_conv dest: mk_lifecycle_event_SomeD)

lemma lifecycle_event_of_dump:
  assumes "pydantic_ok P" and "valid_event P e"
  shows "lifecycle_event_of P fresh now (dump_lifecycle_event P e) = Some e"
  using assms
  by (simp add: lifecycle_event_of_def dump_lifecycle_event_def mk_lifecycle_event_valid)

lemma valid_event_as_order_created:
  assumes "valid_event P e" and "ev_type e = ORDER_CREATED"
  obtains p where "as_order_created P e = Inr p"
  using assms
  by (auto simp: valid_event_def validate_payload_def as_order_created_def split: option.splits)

lemma valid_event_as_shipped:
  assumes "valid_event P e" and "ev_type e = SHIPPED"
  obtains p where "as_shipped P e = Inr p"
  using assms
  by (auto simp: valid_event_def validate_payload_def as_shipped_def split: option.splits)

end
