(* ===== verification/Orders.thy ===== *)
theory Orders
  imports Events
begin

text \<open>
  \<^verbatim>\<open>src/order_service/producer/orders.py\<close>: the order aggregate and its in-memory store. The
  store is the dictionary \<^verbatim>\<open>_orders\<close>; each method runs under the store's lock, so one definition
  is one atomic step, returning its result or exception and the new dictionary. The interface the
  routes rely on for sequence numbers is the locale \<open>sequence_allocator\<close>, interpreted on
  \<open>reserve\<close>.
\<close>

section \<open>The aggregate\<close>

datatype order_error =
    UnknownOrder string
  | IllegalTransition string order_state event_type "event_type option"

record order =
  o_order_id :: string
  o_customer_id :: string
  o_items :: "order_item list"
  o_total_amount :: int
  o_payment :: payment_info
  o_state :: order_state
  o_last_sequence :: int

text \<open>\<^verbatim>\<open>str(exc)\<close> of the two exceptions.\<close>

fun order_error_text :: "order_error \<Rightarrow> string" where
  "order_error_text (UnknownOrder oid) = ''no order '' @ oid"
| "order_error_text (IllegalTransition oid current requested expected) =
     (case expected of
        Some e \<Rightarrow> ''order '' @ oid @ '' is '' @ order_state_value current @ ''; expected '' @
                  event_type_value e @ '' but got '' @ event_type_value requested
      | None \<Rightarrow> ''order '' @ oid @ '' is '' @ order_state_value current @
                '' and its lifecycle is complete; '' @ event_type_value requested @
                '' cannot follow'')"

definition as_dict :: "order \<Rightarrow> json" where
  "as_dict r =
     JObj [(''order_id'', JStr (o_order_id r)),
           (''customer_id'', JStr (o_customer_id r)),
           (''state'', JStr (order_state_value (o_state r))),
           (''last_sequence'', JInt (o_last_sequence r)),
           (''total_amount'', JInt (o_total_amount r)),
           (''payment'', JObj [(''method'', JStr (payment_method_value (pay_method (o_payment r)))),
                               (''reference'', JStr (pay_reference (o_payment r))),
                               (''amount'', JInt (pay_amount (o_payment r)))]),
           (''items'', JArr (map dump_order_item (o_items r))),
           (''expected_next_event'',
              (case EXPECTED_NEXT_EVENT (Some (o_state r)) of
                 Some e \<Rightarrow> JStr (event_type_value e) | None \<Rightarrow> JNull))]"

definition as_snapshot :: "order \<Rightarrow> json" where
  "as_snapshot r = as_dict r"

text \<open>\<^verbatim>\<open>f"ord-{uuid4().hex[:12]}"\<close>, given the hexadecimal digits of the fresh UUID.\<close>

definition new_order_id :: "string \<Rightarrow> string" where
  "new_order_id hex = ''ord-'' @ take 12 hex"

section \<open>The store\<close>

type_synonym order_store = "string \<rightharpoonup> order"

definition register :: "order_store \<Rightarrow> string \<Rightarrow> order_created_payload \<Rightarrow> order \<times> order_store" where
  "register st oid p =
     (let r = \<lparr>o_order_id = oid, o_customer_id = ocp_customer_id p, o_items = ocp_items p,
               o_total_amount = ocp_total_amount p, o_payment = ocp_payment p,
               o_state = RESULTING_STATE ORDER_CREATED, o_last_sequence = 1\<rparr>
      in (r, st(oid \<mapsto> r)))"

definition get_order_record :: "order_store \<Rightarrow> string \<Rightarrow> order option" where
  "get_order_record st oid = st oid"

definition remove :: "order_store \<Rightarrow> string \<Rightarrow> (order_error + order) \<times> order_store" where
  "remove st oid =
     (case st oid of
        None \<Rightarrow> (Inl (UnknownOrder oid), st)
      | Some r \<Rightarrow> (Inr r, st(oid := None)))"

definition reserve ::
    "order_store \<Rightarrow> string \<Rightarrow> event_type \<Rightarrow> bool \<Rightarrow> (order_error + int) \<times> order_store" where
  "reserve st oid et force =
     (case st oid of
        None \<Rightarrow> (Inl (UnknownOrder oid), st)
      | Some r \<Rightarrow>
          if \<not> force \<and> \<not> is_legal_transition et (Some (o_state r))
          then (Inl (IllegalTransition oid (o_state r) et (EXPECTED_NEXT_EVENT (Some (o_state r)))),
                st)
          else (let n = o_last_sequence r + 1 in (Inr n, st(oid \<mapsto> r\<lparr>o_last_sequence := n\<rparr>))))"

definition commit ::
    "order_store \<Rightarrow> string \<Rightarrow> event_type \<Rightarrow> bool \<Rightarrow> (order_error + order) \<times> order_store" where
  "commit st oid et force =
     (case st oid of
        None \<Rightarrow> (Inl (UnknownOrder oid), st)
      | Some r \<Rightarrow>
          if force \<and> \<not> is_legal_transition et (Some (o_state r)) then (Inr r, st)
          else (let r' = r\<lparr>o_state := RESULTING_STATE et\<rparr> in (Inr r', st(oid \<mapsto> r'))))"

text \<open>What the store keeps true of every order it holds: filed under its own id, numbered from 1,
  its total the item sum and the settled payment.\<close>

definition order_ok :: "string \<Rightarrow> order \<Rightarrow> bool" where
  "order_ok oid r \<longleftrightarrow>
     o_order_id r = oid \<and> 1 \<le> o_last_sequence r \<and> o_items r \<noteq> [] \<and>
     o_total_amount r = item_sum (o_items r) \<and> pay_amount (o_payment r) = o_total_amount r"

definition store_ok :: "order_store \<Rightarrow> bool" where
  "store_ok st \<longleftrightarrow> (\<forall>oid r. st oid = Some r \<longrightarrow> order_ok oid r)"

definition last_sequence_of :: "order_store \<Rightarrow> string \<Rightarrow> int option" where
  "last_sequence_of st oid = map_option o_last_sequence (st oid)"

section \<open>Sequence allocation as an interface\<close>

text \<open>What a client of the store may rely on when it asks for sequence numbers: a granted number
  is the successor of the last one, a refusal changes nothing, and other orders are untouched.\<close>

locale sequence_allocator =
  fixes alloc :: "'s \<Rightarrow> 'k \<Rightarrow> 'a \<Rightarrow> ('e + int) \<times> 's"
    and last :: "'s \<Rightarrow> 'k \<Rightarrow> int option"
  assumes alloc_granted:
      "alloc s k a = (Inr n, t) \<Longrightarrow> last s k = Some (n - 1) \<and> last t k = Some n"
    and alloc_refused: "alloc s k a = (Inl e, t) \<Longrightarrow> t = s"
    and alloc_other: "alloc s k a = (r, t) \<Longrightarrow> k' \<noteq> k \<Longrightarrow> last t k' = last s k'"
begin

text \<open>A series of requests, and the numbers granted to one key.\<close>

fun alloc_all :: "'s \<Rightarrow> ('k \<times> 'a) list \<Rightarrow> ('k \<times> int) list \<times> 's" where
  "alloc_all s [] = ([], s)"
| "alloc_all s ((k, a) # rs) =
     (case alloc s k a of
        (Inr n, t) \<Rightarrow> (let (ns, u) = alloc_all t rs in ((k, n) # ns, u))
      | (Inl e, t) \<Rightarrow> alloc_all t rs)"

definition granted :: "('k \<times> int) list \<Rightarrow> 'k \<Rightarrow> int list" where
  "granted ns k = map snd (filter (\<lambda>x. fst x = k) ns)"

lemma granted_simps [simp]:
  "granted [] k = []" "granted ((k', n) # ns) k = (if k' = k then n # granted ns k else granted ns k)"
  by (simp_all add: granted_def)

lemma granted_contiguous:
  assumes "alloc_all s rs = (ns, t)" and "last s k = Some m"
  shows "granted ns k = [m + 1 .. m + int (length (granted ns k))]
         \<and> last t k = Some (m + int (length (granted ns k)))"
  using assms
proof (induction s rs arbitrary: ns m rule: alloc_all.induct)
  case (1 s)
  then show ?case by auto
next
  case (2 s k' a rs)
  obtain r u where au: "alloc s k' a = (r, u)" by (cases "alloc s k' a")
  show ?case
  proof (cases r)
    case (Inl e)
    then have "u = s" using au alloc_refused by blast
    with 2 au Inl show ?thesis by simp
  next
    case (Inr n)
    obtain ns' where ns': "alloc_all u rs = (ns', t)" "ns = (k', n) # ns'"
      using "2.prems" au Inr by (auto split: prod.splits)
    show ?thesis
    proof (cases "k' = k")
      case True
      have "m = n - 1" and lu: "last u k = Some n"
        using alloc_granted [of s k' a n u] au Inr True "2.prems" by auto
      with "2.IH"(2) [OF au [symmetric] Inr ns'(1) lu] show ?thesis
        using ns'(2) True by (auto simp: upto_rec1 algebra_simps)
    next
      case False
      have "last u k = Some m" using alloc_other [OF au] False "2.prems" by auto
      with "2.IH"(2) [OF au [symmetric] Inr ns'(1)] show ?thesis using ns'(2) False by simp
    qed
  qed
qed

lemma granted_distinct:
  assumes "alloc_all s rs = (ns, t)" and "last s k = Some m"
  shows "distinct (granted ns k)"
  by (subst granted_contiguous [OF assms, THEN conjunct1]) (rule distinct_upto)

end

section \<open>Lemmas\<close>

lemma register_simps [simp]:
  "snd (register st oid p) oid = Some (fst (register st oid p))"
  "x \<noteq> oid \<Longrightarrow> snd (register st oid p) x = st x"
  "o_state (fst (register st oid p)) = S_CREATED"
  "o_last_sequence (fst (register st oid p)) = 1"
  "o_total_amount (fst (register st oid p)) = ocp_total_amount p"
  "o_order_id (fst (register st oid p)) = oid"
  by (simp_all add: register_def Let_def)

lemma reserve_granted:
  assumes "reserve st oid et force = (Inr n, st')"
  obtains r where "st oid = Some r" and "n = o_last_sequence r + 1"
    and "st' = st(oid \<mapsto> r\<lparr>o_last_sequence := n\<rparr>)"
    and "force \<or> is_legal_transition et (Some (o_state r))"
  using assms by (auto simp: reserve_def Let_def split: option.splits if_splits)

lemma reserve_refused: "reserve st oid et force = (Inl e, st') \<Longrightarrow> st' = st"
  by (auto simp: reserve_def Let_def split: option.splits if_splits)

lemma commit_done:
  assumes "commit st oid et force = (Inr r', st')"
  obtains r where "st oid = Some r" and "st' = st(oid \<mapsto> r')"
    and "r' = (if force \<and> \<not> is_legal_transition et (Some (o_state r)) then r
               else r\<lparr>o_state := RESULTING_STATE et\<rparr>)"
proof (cases "st oid")
  case None
  with assms show ?thesis by (simp add: commit_def)
next
  case (Some r)
  show ?thesis
  proof (rule that [OF Some])
    show "st' = st(oid \<mapsto> r')"
      using assms Some by (auto simp: commit_def Let_def split: if_splits)
    show "r' = (if force \<and> \<not> is_legal_transition et (Some (o_state r)) then r
                else r\<lparr>o_state := RESULTING_STATE et\<rparr>)"
      using assms Some by (auto simp: commit_def Let_def split: if_splits)
  qed
qed

lemma commit_refused: "commit st oid et force = (Inl e, st') \<Longrightarrow> st' = st \<and> st oid = None"
  by (auto simp: commit_def Let_def split: option.splits if_splits)

lemma store_ok_empty [simp]: "store_ok Map.empty"
  by (simp add: store_ok_def)

lemma store_okD: "store_ok st \<Longrightarrow> st oid = Some r \<Longrightarrow> order_ok oid r"
  by (simp add: store_ok_def)

lemma store_ok_upd: "store_ok st \<Longrightarrow> order_ok oid r \<Longrightarrow> store_ok (st(oid \<mapsto> r))"
  by (simp add: store_ok_def)

lemma register_store_ok:
  assumes "store_ok st" and "mk_order_created_payload c items t pay = Some p"
  shows "store_ok (snd (register st oid p))"
  using assms(1) mk_order_created_payload_SomeD [OF assms(2)]
  by (auto simp: register_def Let_def order_ok_def intro!: store_ok_upd)

lemma reserve_store_ok:
  assumes ok: "store_ok st" and "reserve st oid et force = (r, st')"
  shows "store_ok st'"
proof (cases r)
  case (Inl e)
  then show ?thesis using ok assms(2) by (auto dest: reserve_refused)
next
  case (Inr n)
  with assms(2) obtain q where q: "st oid = Some q" "n = o_last_sequence q + 1"
    "st' = st(oid \<mapsto> q\<lparr>o_last_sequence := n\<rparr>)"
    by (auto elim: reserve_granted)
  have "order_ok oid (q\<lparr>o_last_sequence := n\<rparr>)"
    using store_okD [OF ok q(1)] q(2) by (simp add: order_ok_def)
  with q(3) show ?thesis by (simp add: store_ok_upd [OF ok])
qed

lemma commit_store_ok:
  assumes ok: "store_ok st" and "commit st oid et force = (r, st')"
  shows "store_ok st'"
proof (cases r)
  case (Inl e)
  then show ?thesis using ok assms(2) by (auto dest: commit_refused)
next
  case (Inr r')
  with assms(2) obtain q where q: "st oid = Some q" "st' = st(oid \<mapsto> r')"
    "r' = (if force \<and> \<not> is_legal_transition et (Some (o_state q)) then q
           else q\<lparr>o_state := RESULTING_STATE et\<rparr>)"
    by (auto elim: commit_done)
  have "order_ok oid r'" using store_okD [OF ok q(1)] q(3) by (auto simp: order_ok_def)
  with q(2) show ?thesis by (auto intro: store_ok_upd [OF ok])
qed

lemma remove_store_ok: "store_ok st \<Longrightarrow> remove st oid = (r, st') \<Longrightarrow> store_ok st'"
  by (auto simp: remove_def store_ok_def split: option.splits if_splits)

interpretation order_seq: sequence_allocator
  "\<lambda>st oid (et, force). reserve st oid et force" last_sequence_of
proof unfold_locales
  fix s k a n t
  assume "(case a of (et, force) \<Rightarrow> reserve s k et force) = (Inr n, t)"
  then show "last_sequence_of s k = Some (n - 1) \<and> last_sequence_of t k = Some n"
    by (cases a) (auto simp: last_sequence_of_def elim!: reserve_granted)
next
  fix s k a e t
  assume "(case a of (et, force) \<Rightarrow> reserve s k et force) = (Inl e, t)"
  then show "t = s" by (cases a) (auto dest: reserve_refused)
next
  fix s :: order_store and k k' :: string and a r t
  assume "(case a of (et, force) \<Rightarrow> reserve s k et force) = (r, t)" and "k' \<noteq> k"
  then show "last_sequence_of t k' = last_sequence_of s k'"
    by (cases a; cases r)
      (auto simp: last_sequence_of_def dest: reserve_refused elim!: reserve_granted)
qed

end
