(* ===== verification/Order_Concurrency.thy ===== *)
theory Order_Concurrency
  imports Orders
begin

text \<open>
  FastAPI runs the publishing handlers of \<^verbatim>\<open>src/order_service/producer/routes.py\<close> in worker
  threads, and only the methods of \<^verbatim>\<open>OrderStore\<close> are atomic. This theory is the step relation of
  any number of \<^verbatim>\<open>publish_event\<close>, \<^verbatim>\<open>create_order\<close> and \<^verbatim>\<open>delete_order\<close> requests over one
  store: a \<^verbatim>\<open>publish_event\<close> request reserves, publishes and commits in three separate steps,
  between which every other request may move. The log holds what reached \<^verbatim>\<open>order-lifecycle\<close>.
\<close>

record request =
  rq_order :: string
  rq_type :: event_type
  rq_force :: bool

datatype progress =
    Waiting \<comment> \<open>before \<^verbatim>\<open>store.reserve\<close>\<close>
  | Reserved int \<comment> \<open>holding a sequence number, before the broker answered\<close>
  | Published int \<comment> \<open>acknowledged, before \<^verbatim>\<open>store.commit\<close>\<close>
  | Finished \<comment> \<open>responded\<close>
  | Refused \<comment> \<open>responded with an error\<close>

record service =
  sv_store :: order_store
  sv_known :: "string set" \<comment> \<open>every id ever registered\<close>
  sv_progress :: "nat \<Rightarrow> progress"
  sv_log :: "(string \<times> int \<times> event_type) list"

definition service_init :: service where
  "service_init =
     \<lparr>sv_store = Map.empty, sv_known = {}, sv_progress = (\<lambda>_. Waiting), sv_log = []\<rparr>"

text \<open>One step of the service, \<open>rq\<close> being the requests in flight. A broker failure
  (\<open>publish_lost\<close>) leaves the record off the topic; a delivery timeout may also leave it on the
  topic after the caller was told it failed (\<open>publish_ghost\<close>).\<close>

inductive service_step :: "(nat \<Rightarrow> request) \<Rightarrow> service \<Rightarrow> service \<Rightarrow> bool" for rq where
  create: "oid \<notin> sv_known s \<Longrightarrow>
     service_step rq s
       (s\<lparr>sv_store := snd (register (sv_store s) oid p), sv_known := insert oid (sv_known s),
          sv_log := sv_log s @ [(oid, 1, ORDER_CREATED)]\<rparr>)"
| delete: "remove (sv_store s) oid = (r, st') \<Longrightarrow> service_step rq s (s\<lparr>sv_store := st'\<rparr>)"
| reserve_ok: "sv_progress s i = Waiting \<Longrightarrow>
     reserve (sv_store s) (rq_order (rq i)) (rq_type (rq i)) (rq_force (rq i)) = (Inr n, st') \<Longrightarrow>
     service_step rq s (s\<lparr>sv_store := st',
          sv_progress := (sv_progress s)(i := Reserved n)\<rparr>)"
| reserve_refused: "sv_progress s i = Waiting \<Longrightarrow>
     reserve (sv_store s) (rq_order (rq i)) (rq_type (rq i)) (rq_force (rq i)) = (Inl e, st') \<Longrightarrow>
     service_step rq s (s\<lparr>sv_store := st',
          sv_progress := (sv_progress s)(i := Refused)\<rparr>)"
| publish_ok: "sv_progress s i = Reserved n \<Longrightarrow>
     service_step rq s
       (s\<lparr>sv_log := sv_log s @ [(rq_order (rq i), n, rq_type (rq i))],
          sv_progress := (sv_progress s)(i := Published n)\<rparr>)"
| publish_lost: "sv_progress s i = Reserved n \<Longrightarrow> service_step rq s (s\<lparr>sv_progress := (sv_progress s)(i := Refused)\<rparr>)"
| publish_ghost: "sv_progress s i = Reserved n \<Longrightarrow>
     service_step rq s
       (s\<lparr>sv_log := sv_log s @ [(rq_order (rq i), n, rq_type (rq i))],
          sv_progress := (sv_progress s)(i := Refused)\<rparr>)"
| commit_ok: "sv_progress s i = Published n \<Longrightarrow>
     commit (sv_store s) (rq_order (rq i)) (rq_type (rq i)) (rq_force (rq i)) = (Inr r, st') \<Longrightarrow>
     service_step rq s (s\<lparr>sv_store := st',
          sv_progress := (sv_progress s)(i := Finished)\<rparr>)"
| commit_refused: "sv_progress s i = Published n \<Longrightarrow>
     commit (sv_store s) (rq_order (rq i)) (rq_type (rq i)) (rq_force (rq i)) = (Inl e, st') \<Longrightarrow>
     service_step rq s (s\<lparr>sv_store := st',
          sv_progress := (sv_progress s)(i := Refused)\<rparr>)"

inductive service_reach :: "(nat \<Rightarrow> request) \<Rightarrow> service \<Rightarrow> bool" for rq where
  reach_init: "service_reach rq service_init"
| reach_step: "service_reach rq s \<Longrightarrow> service_step rq s t \<Longrightarrow> service_reach rq t"

text \<open>The numbers on the topic, the numbers in flight, and how they relate to the store.\<close>

definition on_topic :: "service \<Rightarrow> (string \<times> int) list" where
  "on_topic s = map (\<lambda>(oid, n, et). (oid, n)) (sv_log s)"

definition log_inv :: "service \<Rightarrow> bool" where
  "log_inv s \<longleftrightarrow>
     distinct (on_topic s) \<and>
     (\<forall>oid n. (oid, n) \<in> set (on_topic s) \<longrightarrow>
        oid \<in> sv_known s \<and> (\<forall>r. sv_store s oid = Some r \<longrightarrow> n \<le> o_last_sequence r)) \<and>
     (\<forall>oid r. sv_store s oid = Some r \<longrightarrow> oid \<in> sv_known s)"

definition flight_inv :: "(nat \<Rightarrow> request) \<Rightarrow> service \<Rightarrow> bool" where
  "flight_inv rq s \<longleftrightarrow>
     (\<forall>i n. sv_progress s i = Reserved n \<longrightarrow>
        (rq_order (rq i), n) \<notin> set (on_topic s) \<and> rq_order (rq i) \<in> sv_known s \<and>
        (\<forall>r. sv_store s (rq_order (rq i)) = Some r \<longrightarrow> n \<le> o_last_sequence r)) \<and>
     (\<forall>i j n. sv_progress s i = Reserved n \<longrightarrow> sv_progress s j = Reserved n \<longrightarrow>
        rq_order (rq i) = rq_order (rq j) \<longrightarrow> i = j)"

text \<open>A scheduler: the same steps, chosen by name, so that an interleaving can be run.\<close>

datatype choice =
    Create string order_created_payload
  | Delete string
  | Reserve nat
  | Publish nat
  | Lose nat
  | Ghost nat
  | Commit nat

fun schedule1 :: "(nat \<Rightarrow> request) \<Rightarrow> choice \<Rightarrow> service \<Rightarrow> service option" where
  "schedule1 rq (Create oid p) s =
     (if oid \<in> sv_known s then None
      else Some (s\<lparr>sv_store := snd (register (sv_store s) oid p),
                   sv_known := insert oid (sv_known s),
                   sv_log := sv_log s @ [(oid, 1, ORDER_CREATED)]\<rparr>))"
| "schedule1 rq (Delete oid) s = Some (s\<lparr>sv_store := snd (remove (sv_store s) oid)\<rparr>)"
| "schedule1 rq (Reserve i) s =
     (if sv_progress s i \<noteq> Waiting then None
      else (case reserve (sv_store s) (rq_order (rq i)) (rq_type (rq i)) (rq_force (rq i)) of
              (Inr n, st') \<Rightarrow> Some (s\<lparr>sv_store := st',
          sv_progress := (sv_progress s)(i := Reserved n)\<rparr>)
            | (Inl e, st') \<Rightarrow> Some (s\<lparr>sv_store := st',
          sv_progress := (sv_progress s)(i := Refused)\<rparr>)))"
| "schedule1 rq (Publish i) s =
     (case sv_progress s i of
        Reserved n \<Rightarrow>
          Some (s\<lparr>sv_log := sv_log s @ [(rq_order (rq i), n, rq_type (rq i))],
          sv_progress := (sv_progress s)(i := Published n)\<rparr>)
      | _ \<Rightarrow> None)"
| "schedule1 rq (Lose i) s =
     (case sv_progress s i of Reserved n \<Rightarrow> Some (s\<lparr>sv_progress := (sv_progress s)(i := Refused)\<rparr>) | _ \<Rightarrow> None)"
| "schedule1 rq (Ghost i) s =
     (case sv_progress s i of
        Reserved n \<Rightarrow>
          Some (s\<lparr>sv_log := sv_log s @ [(rq_order (rq i), n, rq_type (rq i))],
          sv_progress := (sv_progress s)(i := Refused)\<rparr>)
      | _ \<Rightarrow> None)"
| "schedule1 rq (Commit i) s =
     (case sv_progress s i of
        Published n \<Rightarrow>
          (case commit (sv_store s) (rq_order (rq i)) (rq_type (rq i)) (rq_force (rq i)) of
             (Inr r, st') \<Rightarrow> Some (s\<lparr>sv_store := st',
          sv_progress := (sv_progress s)(i := Finished)\<rparr>)
           | (Inl e, st') \<Rightarrow> Some (s\<lparr>sv_store := st',
          sv_progress := (sv_progress s)(i := Refused)\<rparr>))
      | _ \<Rightarrow> None)"

fun schedule :: "(nat \<Rightarrow> request) \<Rightarrow> choice list \<Rightarrow> service \<Rightarrow> service option" where
  "schedule rq [] s = Some s"
| "schedule rq (c # cs) s =
     (case schedule1 rq c s of None \<Rightarrow> None | Some t \<Rightarrow> schedule rq cs t)"

section \<open>Lemmas\<close>

lemma on_topic_simps [simp]:
  "on_topic (s\<lparr>sv_store := st\<rparr>) = on_topic s"
  "on_topic (s\<lparr>sv_progress := p\<rparr>) = on_topic s"
  "on_topic (s\<lparr>sv_known := k\<rparr>) = on_topic s"
  "on_topic (s\<lparr>sv_log := l @ [(oid, n, et)]\<rparr>) = map (\<lambda>(oid, n, et). (oid, n)) l @ [(oid, n)]"
  by (simp_all add: on_topic_def)

lemma on_topic_log: "map (\<lambda>(oid, n, et). (oid, n)) (sv_log s) = on_topic s"
  by (simp add: on_topic_def)

lemma remove_store: "remove st oid = (r, st') \<Longrightarrow> st' x = Some q \<Longrightarrow> st x = Some q"
  by (auto simp: remove_def split: option.splits if_splits)

lemma commit_store:
  assumes "commit st oid et force = (r, st')" and "st' x = Some q"
  obtains q' where "st x = Some q'" and "o_last_sequence q' = o_last_sequence q"
  using assms by (auto simp: commit_def Let_def split: option.splits if_splits)

lemma register_store: "snd (register st oid p) x = (if x = oid then Some (fst (register st oid p)) else st x)"
  by (simp add: register_def Let_def)

lemma service_step_inv:
  assumes "service_step rq s t" and "log_inv s" and "flight_inv rq s"
  shows "log_inv t \<and> flight_inv rq t"
  using assms
proof (induction rule: service_step.induct)
  case (create oid s p)
  then have "(oid, n) \<notin> set (on_topic s)" for n by (auto simp: log_inv_def)
  with create show ?case
    by (auto simp: log_inv_def flight_inv_def on_topic_log register_store split: if_splits)
next
  case (delete s oid r st')
  have "sv_store s x = Some q" if "st' x = Some q" for x q
    using remove_store [OF delete.hyps that] .
  with delete.prems show ?case by (simp add: log_inv_def flight_inv_def)
next
  case (reserve_ok s i n st')
  then obtain r where r: "sv_store s (rq_order (rq i)) = Some r" "n = o_last_sequence r + 1"
    "st' = (sv_store s)(rq_order (rq i) \<mapsto> r\<lparr>o_last_sequence := n\<rparr>)"
    by (auto elim: reserve_granted)
  have fresh: "(rq_order (rq i), n) \<notin> set (on_topic s)"
    using reserve_ok.prems(1) r by (force simp: log_inv_def)
  have flight: "sv_progress s j = Reserved n \<Longrightarrow> rq_order (rq j) \<noteq> rq_order (rq i)" for j
    using reserve_ok.prems(2) r by (force simp: flight_inv_def)
  have "log_inv (s\<lparr>sv_store := st',
          sv_progress := (sv_progress s)(i := Reserved n)\<rparr>)"
    using reserve_ok.prems(1) r by (force simp: log_inv_def)
  moreover have "flight_inv rq (s\<lparr>sv_store := st',
          sv_progress := (sv_progress s)(i := Reserved n)\<rparr>)"
    using reserve_ok.prems r fresh flight
    by (auto simp: flight_inv_def log_inv_def split: if_splits) force+
  ultimately show ?case by blast
next
  case (reserve_refused s i e st')
  then have "st' = sv_store s" by (auto dest: Orders.reserve_refused)
  with reserve_refused show ?case by (auto simp: log_inv_def flight_inv_def)
next
  case (publish_ok s i n)
  then show ?case by (auto simp: log_inv_def flight_inv_def on_topic_log)
next
  case (publish_lost s i n)
  then show ?case by (auto simp: log_inv_def flight_inv_def)
next
  case (publish_ghost s i n)
  then show ?case by (auto simp: log_inv_def flight_inv_def on_topic_log)
next
  case (commit_ok s i n r st')
  have "\<exists>q'. sv_store s x = Some q' \<and> o_last_sequence q' = o_last_sequence q"
    if "st' x = Some q" for x q
    using commit_store [OF commit_ok.hyps(2) that] by blast
  with commit_ok.prems show ?case
    by (fastforce simp: log_inv_def flight_inv_def)
next
  case (commit_refused s i n e st')
  then have "st' = sv_store s" by (auto dest: Orders.commit_refused)
  with commit_refused show ?case by (auto simp: log_inv_def flight_inv_def)
qed

lemma service_reach_inv: "service_reach rq s \<Longrightarrow> log_inv s \<and> flight_inv rq s"
proof (induction rule: service_reach.induct)
  case reach_init
  show ?case by (simp add: service_init_def log_inv_def flight_inv_def on_topic_def)
next
  case (reach_step s t)
  then show ?case using service_step_inv by blast
qed

lemma schedule1_step: "schedule1 rq c s = Some t \<Longrightarrow> service_step rq s t"
proof (cases c)
  case (Delete oid)
  assume "schedule1 rq c s = Some t"
  with Delete show ?thesis
    by (auto intro: service_step.delete [where r = "fst (remove (sv_store s) oid)"])
qed (auto split: if_splits progress.splits prod.splits sum.splits intro: service_step.intros)

lemma schedule_reach: "service_reach rq s \<Longrightarrow> schedule rq cs s = Some t \<Longrightarrow> service_reach rq t"
  by (induction cs arbitrary: s)
    (auto split: option.splits intro: service_reach.intros dest: schedule1_step)

text \<open>A concrete service: one order, two concurrent PACKED requests and one SHIPPED request.\<close>

definition demo_payload :: order_created_payload where
  "demo_payload =
     \<lparr>ocp_customer_id = ''c1'', ocp_items = [\<lparr>sku = ''book'', qty = 2, unit_price = 350\<rparr>],
      ocp_total_amount = 700,
      ocp_payment = \<lparr>pay_method = BKASH, pay_reference = ''tx9'', pay_amount = 700\<rparr>\<rparr>"

definition demo_requests :: "nat \<Rightarrow> request" where
  "demo_requests i =
     \<lparr>rq_order = ''ord-1'', rq_type = (if i < 2 then PACKED else SHIPPED), rq_force = False\<rparr>"

definition demo_prefix :: "choice list" where
  "demo_prefix =
     [Create ''ord-1'' demo_payload, Reserve 0, Reserve 1, Publish 0, Commit 0, Reserve 2,
      Publish 2, Commit 2, Publish 1]"

definition demo_order :: order where
  "demo_order =
     \<lparr>o_order_id = ''ord-1'', o_customer_id = ''c1'', o_items = ocp_items demo_payload,
      o_total_amount = 700, o_payment = ocp_payment demo_payload, o_state = S_SHIPPED,
      o_last_sequence = 4\<rparr>"

definition demo_service :: service where
  "demo_service =
     \<lparr>sv_store = [''ord-1'' \<mapsto> demo_order], sv_known = {''ord-1''},
      sv_progress = (\<lambda>_. Waiting)(0 := Finished, 2 := Finished, Suc 0 := Published 3),
      sv_log = [(''ord-1'', 1, ORDER_CREATED), (''ord-1'', 2, PACKED), (''ord-1'', 4, SHIPPED),
                (''ord-1'', 3, PACKED)]\<rparr>"

lemmas demo_defs = demo_prefix_def demo_requests_def demo_payload_def service_init_def
  register_def reserve_def commit_def is_legal_transition_def Let_def

lemma demo_run: "schedule demo_requests demo_prefix service_init = Some demo_service"
  by (simp add: demo_defs demo_service_def demo_order_def)

lemma demo_reach: "service_reach demo_requests demo_service"
  using demo_run by (blast intro: schedule_reach service_reach.reach_init)

section \<open>Properties\<close>

text \<open>C10. No two lifecycle events of one order ever carry the same sequence number, in any
  interleaving of create, publish and delete requests, with broker failures and ghost writes.\<close>

theorem sequences_unique_on_topic:
  assumes "service_reach rq s"
  shows "distinct (on_topic s)"
  using service_reach_inv [OF assms] by (simp add: log_inv_def)

theorem sequences_unique_on_topic_witness:
  "distinct (on_topic demo_service)
   \<and> on_topic demo_service = [(''ord-1'', 1), (''ord-1'', 2), (''ord-1'', 4), (''ord-1'', 3)]"
  using sequences_unique_on_topic [OF demo_reach] by (simp add: demo_service_def on_topic_def)

text \<open>C25. The transition guard is checked when a sequence is reserved but the state moves only
  when the publish is committed, so two unforced requests can both be told PACKED is legal, and the
  slower one's commit takes a shipped order back to PACKED.\<close>

theorem unforced_requests_can_regress_state:
  "\<exists>rq s t r r'. (\<forall>i. \<not> rq_force (rq i)) \<and> service_reach rq s \<and> service_step rq s t
     \<and> sv_store s ''ord-1'' = Some r \<and> o_state r = S_SHIPPED
     \<and> sv_store t ''ord-1'' = Some r' \<and> o_state r' = S_PACKED
     \<and> map (\<lambda>(oid, n, et). et) (sv_log t) = [ORDER_CREATED, PACKED, SHIPPED, PACKED]"
proof -
  define t where
    "t = demo_service\<lparr>sv_store := [''ord-1'' \<mapsto> demo_order\<lparr>o_state := S_PACKED\<rparr>],
                     sv_progress := (sv_progress demo_service)(1 := Finished)\<rparr>"
  have "schedule1 demo_requests (Commit 1) demo_service = Some t"
    by (simp add: t_def demo_service_def demo_order_def demo_requests_def commit_def
        is_legal_transition_def Let_def)
  then have "service_step demo_requests demo_service t" by (rule schedule1_step)
  moreover have "\<forall>i. \<not> rq_force (demo_requests i)" by (simp add: demo_requests_def)
  moreover have "sv_store demo_service ''ord-1'' = Some demo_order" "o_state demo_order = S_SHIPPED"
    by (simp_all add: demo_service_def demo_order_def)
  moreover have "sv_store t ''ord-1'' = Some (demo_order\<lparr>o_state := S_PACKED\<rparr>)"
    "map (\<lambda>(oid, n, et). et) (sv_log t) = [ORDER_CREATED, PACKED, SHIPPED, PACKED]"
    by (simp_all add: t_def demo_service_def)
  ultimately show ?thesis using demo_reach by fastforce
qed

end
