(* ===== verification/Settings_Model.thy ===== *)
theory Settings_Model
  imports Py_Base "HOL-Library.Monad_Syntax"
begin

text \<open>
  \<^verbatim>\<open>src/order_service/config.py\<close>: the settings record, its validators and its derived values.
  The environment and the \<^verbatim>\<open>.env\<close> file are read by pydantic-settings; the model starts from the
  field values. \<^verbatim>\<open>socket.gethostname()\<close> is the argument \<open>host\<close>. A \<^verbatim>\<open>float\<close> is the exact
  rational of its literal; the spellings \<^verbatim>\<open>inf\<close> and \<^verbatim>\<open>nan\<close> are not numbers here.
\<close>

datatype group_protocol = CLASSIC | CONSUMER
datatype state_backend_kind = MEMORY | LOCAL
datatype state_rebuild_mode = FULL | CHECKPOINT
datatype state_write_order_mode = STATE_FIRST | OFFSET_FIRST
datatype state_crash_point = NO_CRASH | STATE_WRITE | OFFSET_COMMIT | TRANSACTION_OPEN
datatype processing_guarantee_mode = AT_LEAST_ONCE | EXACTLY_ONCE
datatype isolation_level_mode = READ_COMMITTED | READ_UNCOMMITTED
datatype producer_acks_mode = ACKS_NONE | ACKS_LEADER | ACKS_ALL
datatype handler_failure = NO_FAILURE | TRANSIENT | POISON

record settings =
  kafka_bootstrap_servers :: string
  order_lifecycle_topic :: string
  order_snapshot_topic :: string
  service_name :: string
  consumer_group_id :: "string option"
  consumer_instance_id :: "string option"
  consumer_group_protocol :: group_protocol
  consumer_assignment_strategy :: "string option"
  consumer_remote_assignor :: "string option"
  consumer_session_timeout_ms :: "int option"
  consumer_max_poll_interval_ms :: "int option"
  handler_delay_seconds :: rat
  consumer_instance_id_static :: "string option"
  state_backend :: state_backend_kind
  state_write_order :: state_write_order_mode
  state_crash_after :: state_crash_point
  state_dir :: string
  state_changelog_prefix :: string
  state_rebuild :: state_rebuild_mode
  producer_acks :: producer_acks_mode
  retry_topic :: string
  dlq_topic :: string
  retry_max_attempts :: int
  retry_backoff_seconds :: string
  producer_retries :: int
  producer_retry_backoff_ms :: int
  producer_message_timeout_ms :: int
  handler_failure_mode :: handler_failure
  handler_failure_orders :: "string option"
  handler_failure_attempts :: int
  processing_guarantee :: processing_guarantee_mode
  producer_idempotence :: bool
  consumer_isolation_level :: isolation_level_mode
  transaction_commit_interval_messages :: int
  transaction_commit_interval_ms :: int
  transaction_timeout_ms :: int
  delivery_timeout_seconds :: rat
  order_service_host :: string
  order_service_port :: int

definition default_settings :: settings where
  "default_settings =
     \<lparr>kafka_bootstrap_servers = ''localhost:9092,localhost:9094,localhost:9095'',
      order_lifecycle_topic = ''order-lifecycle'',
      order_snapshot_topic = ''order-snapshot'',
      service_name = ''inventory'',
      consumer_group_id = None,
      consumer_instance_id = None,
      consumer_group_protocol = CLASSIC,
      consumer_assignment_strategy = None,
      consumer_remote_assignor = None,
      consumer_session_timeout_ms = None,
      consumer_max_poll_interval_ms = None,
      handler_delay_seconds = 0,
      consumer_instance_id_static = None,
      state_backend = MEMORY,
      state_write_order = STATE_FIRST,
      state_crash_after = NO_CRASH,
      state_dir = ''/var/lib/order-state'',
      state_changelog_prefix = ''order-fold'',
      state_rebuild = FULL,
      producer_acks = ACKS_ALL,
      retry_topic = ''order-lifecycle.retry'',
      dlq_topic = ''order-lifecycle.dlq'',
      retry_max_attempts = 3,
      retry_backoff_seconds = ''30,120'',
      producer_retries = 3,
      producer_retry_backoff_ms = 100,
      producer_message_timeout_ms = 30000,
      handler_failure_mode = NO_FAILURE,
      handler_failure_orders = None,
      handler_failure_attempts = 2,
      processing_guarantee = AT_LEAST_ONCE,
      producer_idempotence = True,
      consumer_isolation_level = READ_COMMITTED,
      transaction_commit_interval_messages = 100,
      transaction_commit_interval_ms = 200,
      transaction_timeout_ms = 60000,
      delivery_timeout_seconds = 10,
      order_service_host = ''0.0.0.0'',
      order_service_port = 8010\<rparr>"

section \<open>Enum values\<close>

fun group_protocol_value :: "group_protocol \<Rightarrow> string" where
  "group_protocol_value CLASSIC = ''classic''"
| "group_protocol_value CONSUMER = ''consumer''"

fun isolation_level_value :: "isolation_level_mode \<Rightarrow> string" where
  "isolation_level_value READ_COMMITTED = ''read_committed''"
| "isolation_level_value READ_UNCOMMITTED = ''read_uncommitted''"

fun producer_acks_value :: "producer_acks_mode \<Rightarrow> string" where
  "producer_acks_value ACKS_NONE = ''0''"
| "producer_acks_value ACKS_LEADER = ''1''"
| "producer_acks_value ACKS_ALL = ''all''"

section \<open>Validators\<close>

definition blank_is_unset :: "string option \<Rightarrow> string option" where
  "blank_is_unset v = (case v of Some s \<Rightarrow> (if strip s = [] then None else Some s) | None \<Rightarrow> None)"

definition exactly_once :: "settings \<Rightarrow> bool" where
  "exactly_once c \<longleftrightarrow> processing_guarantee c = EXACTLY_ONCE"

definition refuse_checkpoint_under_exactly_once :: "settings \<Rightarrow> exn + settings" where
  "refuse_checkpoint_under_exactly_once c =
     (if processing_guarantee c = EXACTLY_ONCE \<and> state_rebuild c = CHECKPOINT
      then Inl (ValueError
        ''PROCESSING_GUARANTEE=exactly_once cannot be combined with STATE_REBUILD=checkpoint'')
      else Inr c)"

text \<open>\<^verbatim>\<open>Settings()\<close> on the raw field values: the field validators, then the model validator.\<close>

definition load_settings :: "settings \<Rightarrow> exn + settings" where
  "load_settings c =
     refuse_checkpoint_under_exactly_once
       (c\<lparr>consumer_instance_id := blank_is_unset (consumer_instance_id c),
          consumer_assignment_strategy := blank_is_unset (consumer_assignment_strategy c),
          consumer_remote_assignor := blank_is_unset (consumer_remote_assignor c),
          consumer_instance_id_static := blank_is_unset (consumer_instance_id_static c),
          handler_failure_orders := blank_is_unset (handler_failure_orders c)\<rparr>)"

section \<open>Derived values\<close>

text \<open>\<^verbatim>\<open>a or b\<close> on an optional string: the empty string is false.\<close>

definition str_or :: "string option \<Rightarrow> string \<Rightarrow> string" where
  "str_or a b = (case a of Some s \<Rightarrow> (if s = [] then b else s) | None \<Rightarrow> b)"

definition group_id_for :: "settings \<Rightarrow> string \<Rightarrow> string" where
  "group_id_for c name = str_or (consumer_group_id c) (name @ ''-service'')"

definition instance_label :: "string \<Rightarrow> settings \<Rightarrow> string" where
  "instance_label host c = str_or (consumer_instance_id c) host"

definition transactional_id_for :: "string \<Rightarrow> settings \<Rightarrow> string \<Rightarrow> string" where
  "transactional_id_for host c group_id = group_id @ ''-'' @ instance_label host c"

definition changelog_topic_for :: "settings \<Rightarrow> string \<Rightarrow> string" where
  "changelog_topic_for c group_id = state_changelog_prefix c @ ''.'' @ group_id"

definition producer_delivery_wait_seconds :: "settings \<Rightarrow> rat" where
  "producer_delivery_wait_seconds c = of_int (producer_message_timeout_ms c) / 1000 + 1"

text \<open>\<^verbatim>\<open>float(s)\<close>: a decimal literal with optional fraction and exponent; \<open>None\<close> is the
  \<^verbatim>\<open>ValueError\<close>.\<close>

definition split_first :: "(char \<Rightarrow> bool) \<Rightarrow> string \<Rightarrow> string \<times> string option" where
  "split_first p s =
     (let a = takeWhile (\<lambda>c. \<not> p c) s; b = dropWhile (\<lambda>c. \<not> p c) s
      in (a, case b of [] \<Rightarrow> None | _ # r \<Rightarrow> Some r))"

definition digits_or_empty :: "string \<Rightarrow> nat option" where
  "digits_or_empty s = (if s = [] then Some 0 else digits_value 0 False s)"

definition decimal_value :: "string \<Rightarrow> rat option" where
  "decimal_value s =
     (case split_first (\<lambda>c. c = CHR ''.'') s of
        (a, None) \<Rightarrow> map_option of_nat (digits_value 0 False a)
      | (a, Some b) \<Rightarrow>
          if a = [] \<and> b = [] then None
          else do {
            m \<leftarrow> digits_or_empty a;
            f \<leftarrow> digits_or_empty b;
            Some (of_nat m + of_nat f / 10 ^ length (filter is_digit b)) })"

definition signed :: "(string \<Rightarrow> 'a option) \<Rightarrow> ('a \<Rightarrow> 'a) \<Rightarrow> string \<Rightarrow> 'a option" where
  "signed f neg s =
     (case s of
        [] \<Rightarrow> f []
      | c # cs \<Rightarrow>
          if c = CHR ''-'' then map_option neg (f cs) else if c = CHR ''+'' then f cs else f (c # cs))"

definition py_float :: "string \<Rightarrow> rat option" where
  "py_float s =
     signed (\<lambda>t. case split_first (\<lambda>c. c = CHR ''e'' \<or> c = CHR ''E'') t of
                   (m, None) \<Rightarrow> decimal_value m
                 | (m, Some x) \<Rightarrow> do {
                     d \<leftarrow> decimal_value m;
                     e \<leftarrow> signed (\<lambda>u. map_option int (digits_value 0 False u)) uminus x;
                     Some (if 0 \<le> e then d * 10 ^ nat e else d / 10 ^ nat (- e)) })
       uminus (strip s)"

definition comma_parts :: "string \<Rightarrow> string list" where
  "comma_parts s = filter (\<lambda>p. p \<noteq> []) (map strip (split_on (CHR '','') s))"

fun parse_floats :: "string list \<Rightarrow> rat list option" where
  "parse_floats [] = Some []"
| "parse_floats (p # ps) = do { x \<leftarrow> py_float p; xs \<leftarrow> parse_floats ps; Some (x # xs) }"

text \<open>\<open>None\<close> is the \<^verbatim>\<open>ValueError\<close> a part that is no number raises.\<close>

definition retry_backoff_schedule :: "settings \<Rightarrow> rat list option" where
  "retry_backoff_schedule c =
     map_option (\<lambda>xs. if xs = [] then [30] else xs)
       (parse_floats (comma_parts (retry_backoff_seconds c)))"

text \<open>\<open>None\<close> is an exception: the \<^verbatim>\<open>ValueError\<close> of the schedule, or the \<^verbatim>\<open>IndexError\<close> of
  \<^verbatim>\<open>schedule[i]\<close> out of range.\<close>

definition backoff_for_attempt :: "settings \<Rightarrow> int \<Rightarrow> rat option" where
  "backoff_for_attempt c attempt =
     (if attempt < 2 then Some 0
      else do {
        schedule \<leftarrow> retry_backoff_schedule c;
        let i = min (attempt - 2) (int (length schedule) - 1);
        if 0 \<le> i \<and> i < int (length schedule) then Some (schedule ! nat i) else None })"

definition failing_orders :: "settings \<Rightarrow> string list" where
  "failing_orders c =
     (case handler_failure_orders c of None \<Rightarrow> [] | Some s \<Rightarrow> remdups (comma_parts s))"

section \<open>Lemmas\<close>

lemma load_settings_ok:
  "load_settings c = Inr d \<Longrightarrow> \<not> (exactly_once d \<and> state_rebuild d = CHECKPOINT)"
  by (auto simp: load_settings_def refuse_checkpoint_under_exactly_once_def exactly_once_def
      split: if_splits)

lemma load_settings_guarantee:
  "load_settings c = Inr d \<Longrightarrow>
   processing_guarantee d = processing_guarantee c \<and> state_rebuild d = state_rebuild c"
  by (auto simp: load_settings_def refuse_checkpoint_under_exactly_once_def split: if_splits)

lemma retry_backoff_schedule_nonempty: "retry_backoff_schedule c = Some xs \<Longrightarrow> xs \<noteq> []"
  by (auto simp: retry_backoff_schedule_def split: if_splits)

lemma str_or_nonempty: "b \<noteq> [] \<Longrightarrow> str_or a b \<noteq> []"
  by (auto simp: str_or_def split: option.splits)

section \<open>Properties\<close>

text \<open>C26. Every attempt has a backoff once the schedule parses: attempts below 2 wait nothing,
  attempt \<open>n\<close> waits entry \<open>n - 2\<close>, and attempts past the end of a short schedule reuse its last
  entry instead of failing.\<close>

theorem backoff_total_and_clamped:
  assumes "retry_backoff_schedule c = Some xs"
  shows "backoff_for_attempt c n =
    Some (if n < 2 then 0 else if nat (n - 2) < length xs then xs ! nat (n - 2) else last xs)"
proof -
  have xs: "xs \<noteq> []" using retry_backoff_schedule_nonempty [OF assms] .
  show ?thesis
  proof (cases "n < 2 \<or> nat (n - 2) < length xs")
    case True
    then show ?thesis using assms by (auto simp: backoff_for_attempt_def Let_def min_def)
  next
    case False
    then have "min (n - 2) (int (length xs) - 1) = int (length xs - 1)" using xs
      by (cases xs) auto
    moreover have "nat (int (length xs) - 1) = length xs - 1" by simp
    ultimately show ?thesis using assms False xs
      by (simp add: backoff_for_attempt_def Let_def last_conv_nth)
  qed
qed

theorem backoff_total_and_clamped_witness:
  "backoff_for_attempt default_settings 2 = Some 30 \<and>
   backoff_for_attempt default_settings 3 = Some 120 \<and>
   backoff_for_attempt default_settings 9 = Some 120"
proof -
  have "retry_backoff_schedule default_settings = Some [30, 120]" by code_simp
  from backoff_total_and_clamped [OF this] show ?thesis by simp
qed

text \<open>The settings object never carries the pair that would restore wrong state: exactly-once
  with a checkpoint rebuild is refused, and every other pair is accepted unchanged.\<close>

lemma checkpoint_refused_iff:
  "(\<exists>e. load_settings c = Inl e) \<longleftrightarrow>
     processing_guarantee c = EXACTLY_ONCE \<and> state_rebuild c = CHECKPOINT"
  by (simp add: load_settings_def refuse_checkpoint_under_exactly_once_def)

end
