(* ===== verification/Order_Producer.thy ===== *)
theory Order_Producer
  imports Events Settings_Model
begin

text \<open>
  \<^verbatim>\<open>src/order_service/producer/kafka_producer.py\<close>: the order service's producer wrapper. The
  client (\<^verbatim>\<open>confluent_kafka.Producer\<close>) is the parameter \<open>broker\<close>: for each record enqueued it
  answers whether \<^verbatim>\<open>produce()\<close> raised, whether and with what a delivery report arrived within the
  wait, and what \<^verbatim>\<open>list_topics\<close> says, all as functions of the records enqueued so far. The state
  is the list of records accepted by \<^verbatim>\<open>produce()\<close>, in order. Here the
  background poll thread is the report being there or not; \<open>Producer_Threads\<close> has the thread itself. The seconds in a timeout text are
  left out.
\<close>

record sent =
  s_topic :: string
  s_key :: string
  s_value :: "wire option"

text \<open>What the callback is handed: an error with whatever the message says of its topic and
  partition, or the partition and offset of an acknowledged record.\<close>

datatype report_msg = NoAccessors | Accessors "string option" "int option"

datatype report = ReportError string report_msg | Reported int int

text \<open>\<^verbatim>\<open>metadata.topics.get(name)\<close>: absent, or present with or without an error.\<close>

datatype topic_meta = NoTopic | TopicError | TopicOk

record broker =
  b_produce :: "sent list \<Rightarrow> sent \<Rightarrow> exn option"
  b_report :: "sent list \<Rightarrow> report option"
  b_topics :: "sent list \<Rightarrow> exn + (string \<Rightarrow> topic_meta)"

record producer_state =
  enqueued :: "sent list"

record delivery_result =
  dr_partition :: int
  dr_offset :: int

definition describe_delivery_error :: "string \<Rightarrow> report_msg \<Rightarrow> string" where
  "describe_delivery_error err msg =
     (case msg of
        NoAccessors \<Rightarrow> err
      | Accessors tp part \<Rightarrow>
          (case (tp, part) of
             (Some t, Some p) \<Rightarrow>
               if p < 0 then err @ '' (partition not yet assigned)''
               else err @ '' ['' @ t @ ''-'' @ py_str p @ '']''
           | _ \<Rightarrow> err @ '' (partition not yet assigned)''))"

definition produce_keyed ::
    "broker \<Rightarrow> string \<Rightarrow> string \<Rightarrow> wire option \<Rightarrow> ('x producer_state_scheme, unit) comp" where
  "produce_keyed B topic key v s =
     (let r = \<lparr>s_topic = topic, s_key = key, s_value = v\<rparr>
      in case b_produce B (enqueued s) r of
           None \<Rightarrow> (Ok (), s\<lparr>enqueued := enqueued s @ [r]\<rparr>)
         | Some (BufferError t) \<Rightarrow> (Raise (DeliveryFailed (''producer queue is full: '' @ t)), s)
         | Some (KafkaException code t) \<Rightarrow> (Raise (DeliveryFailed t), s)
         | Some e \<Rightarrow> (Raise e, s))"

definition topic_exists ::
    "broker \<Rightarrow> settings \<Rightarrow> string option \<Rightarrow> ('x producer_state_scheme, bool) comp" where
  "topic_exists B c topic s =
     (let name = str_or topic (order_lifecycle_topic c)
      in case b_topics B (enqueued s) of
           Inl e \<Rightarrow> (Raise e, s)
         | Inr topics \<Rightarrow> (Ok (topics name = TopicOk), s))"

definition publish_blocking ::
    "broker \<Rightarrow> settings \<Rightarrow> string \<Rightarrow> string \<Rightarrow> wire option \<Rightarrow> string \<Rightarrow>
     ('x producer_state_scheme, delivery_result) comp" where
  "publish_blocking B c topic key v what =
     thenC (produce_keyed B topic key v)
       (bindC (gets (\<lambda>s. b_report B (enqueued s))) (\<lambda>rep.
          case rep of
            None \<Rightarrow>
              bindC (tryC (bindC (topic_exists B c (Some topic)) (\<lambda>ex. ret (\<not> ex)))
                      (\<lambda>e. case e of KafkaException _ _ \<Rightarrow> ret False | _ \<Rightarrow> raise e))
                (\<lambda>missing.
                  if missing
                  then raise (DeliveryFailed (''topic '' @ apostrophe @ topic @ apostrophe @
                    '' does not exist and auto-creation is disabled '' @ em_dash @
                    '' run scripts/create_topics.sh''))
                  else raise (DeliveryTimeout (''no delivery report for '' @ what)))
          | Some (ReportError err msg) \<Rightarrow>
              raise (DeliveryFailed (describe_delivery_error err msg))
          | Some (Reported p off) \<Rightarrow> ret \<lparr>dr_partition = p, dr_offset = off\<rparr>))"

definition publish_and_wait ::
    "broker \<Rightarrow> pydantic \<Rightarrow> settings \<Rightarrow> lifecycle_event \<Rightarrow>
     ('x producer_state_scheme, delivery_result) comp" where
  "publish_and_wait B P c ev =
     publish_blocking B c (order_lifecycle_topic c) (ev_order_id ev)
       (Some (json_dumps (dump_lifecycle_event P ev)))
       (ev_order_id ev @ '' seq '' @ py_str (ev_sequence ev))"

definition publish_snapshot ::
    "broker \<Rightarrow> settings \<Rightarrow> string \<Rightarrow> json \<Rightarrow> ('x producer_state_scheme, unit) comp" where
  "publish_snapshot B c oid snapshot =
     tryC (produce_keyed B (order_snapshot_topic c) oid (Some (json_dumps snapshot)))
       (\<lambda>e. case e of DeliveryFailed _ \<Rightarrow> ret () | _ \<Rightarrow> raise e)"

definition publish_tombstone ::
    "broker \<Rightarrow> settings \<Rightarrow> string \<Rightarrow> ('x producer_state_scheme, delivery_result) comp" where
  "publish_tombstone B c oid =
     publish_blocking B c (order_snapshot_topic c) oid None (''tombstone for '' @ oid)"

text \<open>The configuration the producer is built with.\<close>

definition producer_config :: "settings \<Rightarrow> (string \<times> string) list" where
  "producer_config c =
     [(''bootstrap.servers'', kafka_bootstrap_servers c),
      (''acks'', producer_acks_value (producer_acks c)),
      (''retries'', py_str (producer_retries c)),
      (''retry.backoff.ms'', py_str (producer_retry_backoff_ms c)),
      (''message.timeout.ms'', py_str (producer_message_timeout_ms c)),
      (''enable.idempotence'', if producer_idempotence c then ''True'' else ''False''),
      (''partitioner'', ''consistent_random''),
      (''client.id'', ''order-service-producer'')]"

text \<open>What the client documents: \<^verbatim>\<open>produce()\<close> raises \<^verbatim>\<open>BufferError\<close> or
  \<^verbatim>\<open>KafkaException\<close>, \<^verbatim>\<open>list_topics\<close> raises \<^verbatim>\<open>KafkaException\<close>.\<close>

definition broker_ok :: "broker \<Rightarrow> bool" where
  "broker_ok B \<longleftrightarrow>
     (\<forall>l r e. b_produce B l r = Some e \<longrightarrow>
        (\<exists>t. e = BufferError t) \<or> (\<exists>n t. e = KafkaException n t)) \<and>
     (\<forall>l e. b_topics B l = Inl e \<longrightarrow> (\<exists>n t. e = KafkaException n t))"

section \<open>Lemmas\<close>

lemma produce_keyed_cases:
  obtains (sent) "b_produce B (enqueued s) \<lparr>s_topic = topic, s_key = key, s_value = v\<rparr> = None"
      and "produce_keyed B topic key v s =
        (Ok (), s\<lparr>enqueued := enqueued s @ [\<lparr>s_topic = topic, s_key = key, s_value = v\<rparr>]\<rparr>)"
  | (refused) e where "produce_keyed B topic key v s = (Raise e, s)"
proof (cases "b_produce B (enqueued s) \<lparr>s_topic = topic, s_key = key, s_value = v\<rparr>")
  case None
  then show ?thesis using sent by (simp add: produce_keyed_def Let_def)
next
  case (Some a)
  then have "\<exists>e. produce_keyed B topic key v s = (Raise e, s)"
    by (cases a) (simp_all add: produce_keyed_def Let_def)
  then show ?thesis using refused by blast
qed

text \<open>A blocking publish returns only with a report for exactly this record; on every exception the
  record is either not enqueued at all or enqueued with its fate unknown to the caller.\<close>

lemma publish_blocking_Ok:
  assumes "publish_blocking B c topic key v what s = (Ok d, t)"
  shows "t = s\<lparr>enqueued := enqueued s @ [\<lparr>s_topic = topic, s_key = key, s_value = v\<rparr>]\<rparr>
    \<and> b_report B (enqueued t) = Some (Reported (dr_partition d) (dr_offset d))"
  using assms unfolding publish_blocking_def
  by (auto elim!: bindC_OkE simp: gets_def ret_def raise_def split: option.splits report.splits if_splits)
    (auto simp: produce_keyed_def Let_def split: option.splits exn.splits)

lemma publish_blocking_Raise:
  assumes "publish_blocking B c topic key v what s = (Raise e, t)"
  shows "t = s \<or> t = s\<lparr>enqueued := enqueued s @ [\<lparr>s_topic = topic, s_key = key, s_value = v\<rparr>]\<rparr>"
proof (cases rule: produce_keyed_cases [of B s topic key v])
  case sent
  then show ?thesis
    using assms
    by (auto simp: publish_blocking_def bindC_def gets_def tryC_def ret_def raise_def topic_exists_def Let_def
        split: option.splits report.splits sum.splits exn.splits outcome.splits prod.splits if_splits)
next
  case (refused e')
  then show ?thesis using assms by (simp add: publish_blocking_def bindC_def)
qed

lemma publish_blocking_no_exit: "publish_blocking B c topic key v what s \<noteq> (Exit n, t)"
  by (cases rule: produce_keyed_cases [of B s topic key v])
    (auto simp: publish_blocking_def bindC_def gets_def tryC_def ret_def raise_def topic_exists_def Let_def
        split: option.splits report.splits sum.splits exn.splits outcome.splits prod.splits if_splits)

lemma publish_snapshot_cases:
  "broker_ok B \<Longrightarrow> fst (publish_snapshot B c oid snap s) = Ok ()"
  by (auto simp: broker_ok_def publish_snapshot_def tryC_def produce_keyed_def ret_def raise_def
      Let_def split: option.splits exn.splits)

end
