(* ===== verification/Routes.thy ===== *)
theory Routes
  imports Orders Order_Producer
begin

text \<open>
  \<^verbatim>\<open>src/order_service/producer/routes.py\<close>: the HTTP handlers. The application state is the
  producer's (\<^verbatim>\<open>app.state.producer\<close>) extended with the order store (\<^verbatim>\<open>app.state.orders\<close>). A
  handler is a computation over it; \<^verbatim>\<open>HTTPException\<close> is an exception like any other, and
  \<open>http_status\<close> is what the framework answers with (an exception that is not an
  \<^verbatim>\<open>HTTPException\<close> is a 500). What the handlers draw from the outside (the digits of the new
  UUID, the event id, the clock) are arguments. The handlers here run one after the other;
  \<open>Order_Concurrency\<close> interleaves their atomic steps.
\<close>

record order_app = producer_state +
  app_orders :: order_store

record create_order_request =
  cor_customer_id :: string
  cor_items :: "order_item list"
  cor_payment :: payment_info

record create_order_response =
  cr_order_id :: string
  cr_state :: string
  cr_total_amount :: int
  cr_sequence :: int
  cr_partition :: int
  cr_offset :: int

record publish_event_request =
  per_event_type :: event_type
  per_payload :: json_object
  per_force :: bool

record publish_event_response =
  pr_order_id :: string
  pr_sequence :: int
  pr_event_type :: event_type
  pr_state :: string
  pr_partition :: int
  pr_offset :: int
  pr_forced :: bool

text \<open>What FastAPI has checked of a creation body before the handler runs: the field constraints
  of the request model and of the models inside it.\<close>

definition create_order_request_ok :: "create_order_request \<Rightarrow> bool" where
  "create_order_request_ok b \<longleftrightarrow>
     cor_customer_id b \<noteq> [] \<and> cor_items b \<noteq> [] \<and> list_all valid_item (cor_items b) \<and>
     valid_payment (cor_payment b)"

definition http_status :: "int \<Rightarrow> 'a outcome \<Rightarrow> int" where
  "http_status success r =
     (case r of Ok _ \<Rightarrow> success | Raise (HTTPException code _) \<Rightarrow> code | _ \<Rightarrow> 500)"

text \<open>A method of the order store, called from a handler.\<close>

fun exn_of_order_error :: "order_error \<Rightarrow> exn" where
  "exn_of_order_error (UnknownOrder oid) =
     OtherError ''UnknownOrder'' (order_error_text (UnknownOrder oid))"
| "exn_of_order_error (IllegalTransition oid cur req ex) =
     OtherError ''IllegalTransition'' (order_error_text (IllegalTransition oid cur req ex))"

definition on_orders ::
    "(order_store \<Rightarrow> (order_error + 'a) \<times> order_store) \<Rightarrow> (order_app, order_error + 'a) comp" where
  "on_orders f s = (let (r, st') = f (app_orders s) in (Ok r, s\<lparr>app_orders := st'\<rparr>))"

definition publish_http ::
    "broker \<Rightarrow> pydantic \<Rightarrow> settings \<Rightarrow> lifecycle_event \<Rightarrow> (order_app, int \<times> int) comp" where
  "publish_http B P c ev =
     bindC (tryC (publish_and_wait B P c ev)
              (\<lambda>e. case e of
                     DeliveryTimeout t \<Rightarrow> raise (HTTPException 504 t)
                   | DeliveryFailed t \<Rightarrow> raise (HTTPException 502 t)
                   | _ \<Rightarrow> raise e))
       (\<lambda>d. ret (dr_partition d, dr_offset d))"

definition publish_order_snapshot :: "broker \<Rightarrow> settings \<Rightarrow> order \<Rightarrow> (order_app, unit) comp" where
  "publish_order_snapshot B c r = publish_snapshot B c (o_order_id r) (as_snapshot r)"

definition health :: "json" where
  "health = JObj [(''status'', JStr ''ok'')]"

definition create_order ::
    "broker \<Rightarrow> pydantic \<Rightarrow> settings \<Rightarrow> string \<Rightarrow> string \<Rightarrow> datetime \<Rightarrow> create_order_request \<Rightarrow>
     (order_app, create_order_response) comp" where
  "create_order B P c hex eid now body =
     (let oid = new_order_id hex in
      case mk_order_created_payload (cor_customer_id body) (cor_items body)
             (item_sum (cor_items body)) (cor_payment body) of
        None \<Rightarrow> raise (HTTPException 422 ''payload does not match its schema'')
      | Some pl \<Rightarrow>
          (case mk_lifecycle_event P eid oid 1 ORDER_CREATED now (dump_order_created_payload pl) of
             None \<Rightarrow> raise (ValueError ''event does not match its schema'')
           | Some ev \<Rightarrow>
               bindC (publish_http B P c ev) (\<lambda>(part, off).
               bindC (gets (\<lambda>s. fst (register (app_orders s) oid pl))) (\<lambda>r.
               thenC (modify (\<lambda>s. s\<lparr>app_orders := snd (register (app_orders s) oid pl)\<rparr>))
               (thenC (publish_order_snapshot B c r)
               (ret \<lparr>cr_order_id = oid, cr_state = order_state_value (o_state r),
                     cr_total_amount = o_total_amount r, cr_sequence = 1,
                     cr_partition = part, cr_offset = off\<rparr>))))))"

definition publish_event ::
    "broker \<Rightarrow> pydantic \<Rightarrow> settings \<Rightarrow> string \<Rightarrow> datetime \<Rightarrow> string \<Rightarrow> publish_event_request \<Rightarrow>
     (order_app, publish_event_response) comp" where
  "publish_event B P c eid now oid body =
     bindC (gets (\<lambda>s. get_order_record (app_orders s) oid)) (\<lambda>known.
     if known = None then raise (HTTPException 404 (''no order '' @ oid)) else
     (case validate_payload P (per_event_type body) (per_payload body) of
        Inl e \<Rightarrow> raise (HTTPException 422 (exn_text e))
      | Inr _ \<Rightarrow>
          bindC (on_orders (\<lambda>st. reserve st oid (per_event_type body) (per_force body)))
            (\<lambda>r. case r of
               Inl (UnknownOrder o') \<Rightarrow>
                 raise (HTTPException 404 (order_error_text (UnknownOrder o')))
             | Inl (IllegalTransition o' cur req ex) \<Rightarrow>
                 raise (HTTPException 409 (order_error_text (IllegalTransition o' cur req ex)))
             | Inr n \<Rightarrow>
                 (case mk_lifecycle_event P eid oid n (per_event_type body) now
                         (per_payload body) of
                    None \<Rightarrow> raise (ValueError ''event does not match its schema'')
                  | Some ev \<Rightarrow>
                      bindC (publish_http B P c ev) (\<lambda>(part, off).
                      bindC (on_orders (\<lambda>st. commit st oid (per_event_type body) (per_force body)))
                        (\<lambda>q. case q of
                           Inl err \<Rightarrow> raise (exn_of_order_error err)
                         | Inr r' \<Rightarrow>
                             thenC (publish_order_snapshot B c r')
                             (ret \<lparr>pr_order_id = oid, pr_sequence = n,
                                   pr_event_type = per_event_type body,
                                   pr_state = order_state_value (o_state r'),
                                   pr_partition = part, pr_offset = off,
                                   pr_forced = per_force body\<rparr>)))))))"

definition delete_order ::
    "broker \<Rightarrow> settings \<Rightarrow> string \<Rightarrow> (order_app, unit) comp" where
  "delete_order B c oid =
     bindC (gets (\<lambda>s. get_order_record (app_orders s) oid)) (\<lambda>known.
     if known = None then raise (HTTPException 404 (''no order '' @ oid)) else
     bindC (tryC (publish_tombstone B c oid)
              (\<lambda>e. case e of
                     DeliveryTimeout t \<Rightarrow> raise (HTTPException 504 t)
                   | DeliveryFailed t \<Rightarrow> raise (HTTPException 502 t)
                   | _ \<Rightarrow> raise e))
       (\<lambda>d. bindC (on_orders (\<lambda>st. remove st oid)) (\<lambda>r. ret ())))"

definition get_order :: "string \<Rightarrow> (order_app, json) comp" where
  "get_order oid =
     bindC (gets (\<lambda>s. get_order_record (app_orders s) oid)) (\<lambda>known.
     case known of
       None \<Rightarrow> raise (HTTPException 404 (''no order '' @ oid))
     | Some r \<Rightarrow> ret (as_dict r))"

text \<open>The requests of the API as data, and the service handling a series of them.\<close>

datatype http_request =
    PostOrder string string datetime create_order_request
  | PostEvent string datetime string publish_event_request
  | DeleteOrder string
  | GetOrder string
  | GetHealth

fun handle_request ::
    "broker \<Rightarrow> pydantic \<Rightarrow> settings \<Rightarrow> http_request \<Rightarrow> order_app \<Rightarrow> int \<times> order_app" where
  "handle_request B P c (PostOrder hex eid now body) s =
     (let (r, t) = create_order B P c hex eid now body s in (http_status 201 r, t))"
| "handle_request B P c (PostEvent eid now oid body) s =
     (let (r, t) = publish_event B P c eid now oid body s in (http_status 200 r, t))"
| "handle_request B P c (DeleteOrder oid) s =
     (let (r, t) = delete_order B c oid s in (http_status 204 r, t))"
| "handle_request B P c (GetOrder oid) s =
     (let (r, t) = get_order oid s in (http_status 200 r, t))"
| "handle_request B P c GetHealth s = (200, s)"

fun serve :: "broker \<Rightarrow> pydantic \<Rightarrow> settings \<Rightarrow> http_request list \<Rightarrow> order_app \<Rightarrow> int list \<times> order_app" where
  "serve B P c [] s = ([], s)"
| "serve B P c (q # qs) s =
     (let (code, t) = handle_request B P c q s; (codes, u) = serve B P c qs t in (code # codes, u))"

fun request_ok :: "http_request \<Rightarrow> bool" where
  "request_ok (PostOrder _ _ _ body) = create_order_request_ok body"
| "request_ok _ = True"

text \<open>A broker that accepts and acknowledges everything, on partition 0.\<close>

definition accepting_broker :: broker where
  "accepting_broker =
     \<lparr>b_produce = (\<lambda>_ _. None),
      b_report = (\<lambda>l. Some (Reported 0 (int (length l) - 1))),
      b_topics = (\<lambda>_. Inr (\<lambda>_. TopicOk))\<rparr>"

definition app_init :: order_app where
  "app_init = \<lparr>enqueued = [], app_orders = Map.empty\<rparr>"

section \<open>Lemmas\<close>

text \<open>The three ways a publish can end, and what it leaves.\<close>

abbreviation lifecycle_record :: "pydantic \<Rightarrow> settings \<Rightarrow> lifecycle_event \<Rightarrow> sent" where
  "lifecycle_record P c ev \<equiv>
     \<lparr>s_topic = order_lifecycle_topic c, s_key = ev_order_id ev,
      s_value = Some (json_dumps (dump_lifecycle_event P ev))\<rparr>"

lemma publish_blocking_exn:
  assumes "broker_ok B" and "publish_blocking B c topic key v what s = (Raise e, t)"
  shows "(\<exists>m. e = DeliveryFailed m) \<or> (\<exists>m. e = DeliveryTimeout m)"
proof -
  let ?r = "\<lparr>s_topic = topic, s_key = key, s_value = v\<rparr>"
  show ?thesis
  proof (cases "b_produce B (enqueued s) ?r")
    case None
    then show ?thesis using assms
      by (auto simp: broker_ok_def publish_blocking_def bindC_def gets_def tryC_def ret_def raise_def
          topic_exists_def produce_keyed_def Let_def
          split: option.splits report.splits sum.splits if_splits exn.splits)
  next
    case (Some a)
    then have "(\<exists>m. a = BufferError m) \<or> (\<exists>n m. a = KafkaException n m)"
      using assms(1) by (auto simp: broker_ok_def)
    then show ?thesis using assms(2) Some
      by (auto simp: publish_blocking_def bindC_def produce_keyed_def Let_def)
  qed
qed

lemma publish_snapshot_frame:
  "snd (publish_snapshot B c oid j s) = s \<or>
   (\<exists>r. s_topic r = order_snapshot_topic c \<and>
        snd (publish_snapshot B c oid j s) = s\<lparr>enqueued := enqueued s @ [r]\<rparr>)"
proof (cases rule: produce_keyed_cases [of B s "order_snapshot_topic c" oid "Some (json_dumps j)"])
  case sent
  show ?thesis
    by (rule disjI2, rule exI [of _ "\<lparr>s_topic = order_snapshot_topic c, s_key = oid,
          s_value = Some (json_dumps j)\<rparr>"]) (simp add: publish_snapshot_def tryC_def sent(2))
next
  case (refused e)
  then show ?thesis
    by (auto simp: publish_snapshot_def tryC_def ret_def raise_def split: exn.splits)
qed

lemma publish_http_cases:
  assumes "broker_ok B"
  obtains (acked) part off where
      "publish_http B P c ev s =
         (Ok (part, off), s\<lparr>enqueued := enqueued s @ [lifecycle_record P c ev]\<rparr>)"
      and "b_report B (enqueued s @ [lifecycle_record P c ev]) = Some (Reported part off)"
  | (failed) code t s' where "publish_http B P c ev s = (Raise (HTTPException code t), s')"
      and "code = 502 \<or> code = 504"
      and "s' = s \<or> s' = s\<lparr>enqueued := enqueued s @ [lifecycle_record P c ev]\<rparr>"
proof -
  obtain r t where rt: "publish_and_wait B P c ev s = (r, t)"
    by (cases "publish_and_wait B P c ev s")
  then have pb: "publish_blocking B c (order_lifecycle_topic c) (ev_order_id ev)
       (Some (json_dumps (dump_lifecycle_event P ev)))
       (ev_order_id ev @ '' seq '' @ py_str (ev_sequence ev)) s = (r, t)"
    by (simp add: publish_and_wait_def)
  show ?thesis
  proof (cases r)
    case (Ok d)
    with rt publish_blocking_Ok [OF pb [unfolded Ok]] show ?thesis
      by (intro acked [of "dr_partition d" "dr_offset d"])
        (auto simp: publish_http_def bindC_def tryC_def ret_def)
  next
    case (Raise e)
    have fr: "t = s \<or> t = s\<lparr>enqueued := enqueued s @ [lifecycle_record P c ev]\<rparr>"
      using publish_blocking_Raise [OF pb [unfolded Raise]] .
    from publish_blocking_exn [OF assms pb [unfolded Raise]]
    consider m where "e = DeliveryFailed m" | m where "e = DeliveryTimeout m" by blast
    then show ?thesis
    proof cases
      case (1 m)
      with rt Raise fr show ?thesis
        by (intro failed [of 502 m t]) (auto simp: publish_http_def bindC_def tryC_def raise_def)
    next
      case (2 m)
      with rt Raise fr show ?thesis
        by (intro failed [of 504 m t]) (auto simp: publish_http_def bindC_def tryC_def raise_def)
    qed
  next
    case (Exit n)
    with pb publish_blocking_no_exit show ?thesis by blast
  qed
qed

text \<open>Whether the client's queue takes every snapshot, and the record it then holds.\<close>

definition takes_snapshots :: "broker \<Rightarrow> settings \<Rightarrow> bool" where
  "takes_snapshots B c \<longleftrightarrow> (\<forall>l r. s_topic r = order_snapshot_topic c \<longrightarrow> b_produce B l r = None)"

abbreviation snapshot_record :: "settings \<Rightarrow> order \<Rightarrow> sent" where
  "snapshot_record c r \<equiv>
     \<lparr>s_topic = order_snapshot_topic c, s_key = o_order_id r, s_value = Some (json_dumps (as_snapshot r))\<rparr>"

lemma publish_snapshot_taken:
  "takes_snapshots B c \<Longrightarrow>
   publish_order_snapshot B c r s = (Ok (), s\<lparr>enqueued := enqueued s @ [snapshot_record c r]\<rparr>)"
  by (simp add: takes_snapshots_def publish_order_snapshot_def publish_snapshot_def tryC_def produce_keyed_def)

lemma publish_snapshot_done:
  assumes "broker_ok B"
  obtains l where "publish_order_snapshot B c r s = (Ok (), s\<lparr>enqueued := enqueued s @ l\<rparr>)"
    and "\<forall>x \<in> set l. s_topic x = order_snapshot_topic c"
    and "takes_snapshots B c \<longrightarrow> l = [snapshot_record c r]"
proof (cases "takes_snapshots B c")
  case True
  then show ?thesis by (intro that [of "[snapshot_record c r]"]) (simp_all add: publish_snapshot_taken)
next
  case False
  have ok: "fst (publish_order_snapshot B c r s) = Ok ()"
    using publish_snapshot_cases [OF assms] by (simp add: publish_order_snapshot_def)
  from publish_snapshot_frame [of B c "o_order_id r" "as_snapshot r" s]
  obtain l where "snd (publish_order_snapshot B c r s) = s\<lparr>enqueued := enqueued s @ l\<rparr>"
    "\<forall>x \<in> set l. s_topic x = order_snapshot_topic c"
  proof
    assume "snd (publish_snapshot B c (o_order_id r) (as_snapshot r) s) = s"
    then show ?thesis by (intro that [of "[]"]) (simp_all add: publish_order_snapshot_def)
  qed (auto simp: publish_order_snapshot_def intro: that)
  with ok False show ?thesis by (metis prod.collapse that)
qed

lemma accepting_broker_ok [simp]: "broker_ok accepting_broker"
  by (simp add: broker_ok_def accepting_broker_def)

text \<open>The three refusals of \<open>publish_event\<close>, each before anything is spent.\<close>

lemma publish_event_unknown:
  "app_orders s oid = None \<Longrightarrow>
   publish_event B P c eid now oid body s = (Raise (HTTPException 404 (''no order '' @ oid)), s)"
  by (simp add: publish_event_def get_order_record_def raise_def)

lemma publish_event_malformed:
  "app_orders s oid = Some r \<Longrightarrow>
   validate_payload P (per_event_type body) (per_payload body) = Inl e \<Longrightarrow>
   publish_event B P c eid now oid body s = (Raise (HTTPException 422 (exn_text e)), s)"
  by (simp add: publish_event_def get_order_record_def raise_def)

lemma publish_event_illegal:
  assumes "app_orders s oid = Some r"
    and "validate_payload P (per_event_type body) (per_payload body) = Inr m"
    and "\<not> per_force body"
    and "\<not> is_legal_transition (per_event_type body) (Some (o_state r))"
  shows "publish_event B P c eid now oid body s =
     (Raise (HTTPException 409 (order_error_text (IllegalTransition oid (o_state r)
        (per_event_type body) (EXPECTED_NEXT_EVENT (Some (o_state r)))))), s)"
  using assms
  by (simp add: publish_event_def get_order_record_def raise_def on_orders_def reserve_def bindC_def
      gets_def)

lemma publish_event_proceeds:
  fixes eid oid :: string and now :: datetime
  assumes B: "broker_ok B" and r: "app_orders s oid = Some r"
    and v: "validate_payload P (per_event_type body) (per_payload body) = Inr m"
    and g: "per_force body \<or> is_legal_transition (per_event_type body) (Some (o_state r))"
    and pos: "0 \<le> o_last_sequence r"
  defines "n \<equiv> o_last_sequence r + 1"
  defines "ev \<equiv> \<lparr>event_id = eid, ev_order_id = oid, ev_sequence = n,
                   ev_type = per_event_type body, occurred_at = now, payload = per_payload body\<rparr>"
  defines "r' \<equiv> (if per_force body \<and>
                       \<not> is_legal_transition (per_event_type body) (Some (o_state r))
                    then r\<lparr>o_last_sequence := n\<rparr>
                    else r\<lparr>o_last_sequence := n, o_state := RESULTING_STATE (per_event_type body)\<rparr>)"
  obtains (published) part off l where
      "publish_event B P c eid now oid body s =
         (Ok \<lparr>pr_order_id = oid, pr_sequence = n, pr_event_type = per_event_type body,
              pr_state = order_state_value (o_state r'), pr_partition = part, pr_offset = off,
              pr_forced = per_force body\<rparr>,
          s\<lparr>enqueued := enqueued s @ [lifecycle_record P c ev] @ l,
            app_orders := (app_orders s)(oid \<mapsto> r')\<rparr>)"
      and "b_report B (enqueued s @ [lifecycle_record P c ev]) = Some (Reported part off)"
      and "\<forall>x \<in> set l. s_topic x = order_snapshot_topic c"
      and "takes_snapshots B c \<longrightarrow> l = [snapshot_record c r']"
  | (failed) code t l where
      "publish_event B P c eid now oid body s =
         (Raise (HTTPException code t),
          s\<lparr>enqueued := l, app_orders := (app_orders s)(oid \<mapsto> r\<lparr>o_last_sequence := n\<rparr>)\<rparr>)"
      and "code = 502 \<or> code = 504"
      and "l = enqueued s \<or> l = enqueued s @ [lifecycle_record P c ev]"
proof -
  let ?s1 = "s\<lparr>app_orders := (app_orders s)(oid \<mapsto> r\<lparr>o_last_sequence := n\<rparr>)\<rparr>"
  have res: "reserve (app_orders s) oid (per_event_type body) (per_force body) =
      (Inr n, (app_orders s)(oid \<mapsto> r\<lparr>o_last_sequence := n\<rparr>))"
    using r g by (auto simp: reserve_def n_def Let_def)
  have mk: "mk_lifecycle_event P eid oid n (per_event_type body) now (per_payload body) = Some ev"
    using v pos by (simp add: mk_lifecycle_event_def n_def ev_def)
  have run: "publish_event B P c eid now oid body s =
      bindC (publish_http B P c ev) (\<lambda>(part, off).
        bindC (on_orders (\<lambda>st. commit st oid (per_event_type body) (per_force body)))
          (\<lambda>q. case q of
             Inl err \<Rightarrow> raise (exn_of_order_error err)
           | Inr r' \<Rightarrow>
               thenC (publish_order_snapshot B c r')
               (ret \<lparr>pr_order_id = oid, pr_sequence = n, pr_event_type = per_event_type body,
                     pr_state = order_state_value (o_state r'), pr_partition = part,
                     pr_offset = off, pr_forced = per_force body\<rparr>))) ?s1"
    using r v res mk
    by (simp add: publish_event_def get_order_record_def on_orders_def bindC_def [of "on_orders _"])
  from B show ?thesis
  proof (cases rule: publish_http_cases [where P = P and c = c and ev = ev and s = ?s1])
    case (acked part off)
    let ?s2 = "?s1\<lparr>enqueued := enqueued s @ [lifecycle_record P c ev]\<rparr>"
    let ?s3 = "?s2\<lparr>app_orders := (app_orders s)(oid \<mapsto> r')\<rparr>"
    have cm: "on_orders (\<lambda>st. commit st oid (per_event_type body) (per_force body)) ?s2 =
        (Ok (Inr r'), ?s3)"
      by (auto simp: on_orders_def commit_def r'_def Let_def)
    obtain l where l: "publish_order_snapshot B c r' ?s3 =
        (Ok (), ?s3\<lparr>enqueued := enqueued ?s3 @ l\<rparr>)"
      and lt: "\<forall>x \<in> set l. s_topic x = order_snapshot_topic c"
      and lr: "takes_snapshots B c \<longrightarrow> l = [snapshot_record c r']"
      by (rule publish_snapshot_done [OF B, of c r' ?s3])
    show ?thesis
      using acked cm l lt lr by (intro published [of part off l]) (simp_all add: run bindC_def ret_def)
  next
    case (failed code t s')
    then show ?thesis
      by (intro that(2) [of code t "enqueued s'"]) (auto simp: run bindC_def)
  qed
qed

lemma create_order_mismatch:
  assumes "create_order_request_ok body"
    and "pay_amount (cor_payment body) \<noteq> item_sum (cor_items body)"
  shows "create_order B P c hex eid now body s =
     (Raise (HTTPException 422 ''payload does not match its schema''), s)"
  using assms
  by (simp add: create_order_def mk_order_created_payload_def validate_totals_def raise_def Let_def)

definition created_payload :: "create_order_request \<Rightarrow> order_created_payload" where
  "created_payload body =
     \<lparr>ocp_customer_id = cor_customer_id body, ocp_items = cor_items body,
      ocp_total_amount = item_sum (cor_items body), ocp_payment = cor_payment body\<rparr>"

definition created_event :: "string \<Rightarrow> string \<Rightarrow> datetime \<Rightarrow> create_order_request \<Rightarrow> lifecycle_event" where
  "created_event hex eid now body =
     \<lparr>event_id = eid, ev_order_id = new_order_id hex, ev_sequence = 1, ev_type = ORDER_CREATED,
      occurred_at = now, payload = dump_order_created_payload (created_payload body)\<rparr>"

lemma mk_created_payload:
  assumes "create_order_request_ok body"
    and "pay_amount (cor_payment body) = item_sum (cor_items body)"
  shows "mk_order_created_payload (cor_customer_id body) (cor_items body)
           (item_sum (cor_items body)) (cor_payment body) = Some (created_payload body)"
proof -
  have "0 \<le> item_sum (cor_items body)"
    using assms by (simp add: create_order_request_ok_def valid_payment_def)
  with assms show ?thesis
    by (simp add: mk_order_created_payload_def validate_totals_def created_payload_def
        create_order_request_ok_def)
qed

lemma mk_created_event:
  assumes P: "pydantic_ok P" and ok: "create_order_request_ok body"
    and pay: "pay_amount (cor_payment body) = item_sum (cor_items body)"
  shows "mk_lifecycle_event P eid (new_order_id hex) 1 ORDER_CREATED now
           (dump_order_created_payload (created_payload body)) =
         Some (created_event hex eid now body)"
proof -
  have "order_created_payload_of P (dump_order_created_payload (created_payload body)) =
      Some (created_payload body)"
    using ok by (intro order_created_payload_of_dump [OF P mk_created_payload [OF ok pay]])
      (simp_all add: create_order_request_ok_def)
  then show ?thesis
    by (simp add: mk_lifecycle_event_def validate_payload_def created_event_def)
qed

lemma create_order_proceeds:
  assumes B: "broker_ok B" and P: "pydantic_ok P" and ok: "create_order_request_ok body"
    and pay: "pay_amount (cor_payment body) = item_sum (cor_items body)"
  obtains (created) part off l where
      "create_order B P c hex eid now body s =
         (Ok \<lparr>cr_order_id = new_order_id hex, cr_state = order_state_value S_CREATED,
              cr_total_amount = item_sum (cor_items body), cr_sequence = 1,
              cr_partition = part, cr_offset = off\<rparr>,
          s\<lparr>enqueued := enqueued s @ [lifecycle_record P c (created_event hex eid now body)] @ l,
            app_orders := snd (register (app_orders s) (new_order_id hex) (created_payload body))\<rparr>)"
      and "b_report B (enqueued s @ [lifecycle_record P c (created_event hex eid now body)]) =
         Some (Reported part off)"
      and "\<forall>x \<in> set l. s_topic x = order_snapshot_topic c"
      and "takes_snapshots B c \<longrightarrow>
         l = [snapshot_record c (fst (register (app_orders s) (new_order_id hex) (created_payload body)))]"
  | (failed) code t l where
      "create_order B P c hex eid now body s = (Raise (HTTPException code t), s\<lparr>enqueued := l\<rparr>)"
      and "code = 502 \<or> code = 504"
      and "l = enqueued s \<or> l = enqueued s @ [lifecycle_record P c (created_event hex eid now body)]"
proof -
  let ?oid = "new_order_id hex" and ?pl = "created_payload body"
  let ?ev = "created_event hex eid now body"
  have tot: "ocp_total_amount ?pl = item_sum (cor_items body)" by (simp add: created_payload_def)
  note mk = mk_created_payload [OF ok pay] mk_created_event [OF P ok pay, of eid hex now]
  from B show ?thesis
  proof (cases rule: publish_http_cases [where P = P and c = c and ev = ?ev and s = s])
    case (acked part off)
    let ?s2 = "s\<lparr>enqueued := enqueued s @ [lifecycle_record P c ?ev]\<rparr>"
    let ?r = "fst (register (app_orders s) ?oid ?pl)"
    let ?s3 = "?s2\<lparr>app_orders := snd (register (app_orders s) ?oid ?pl)\<rparr>"
    obtain l where l: "publish_order_snapshot B c ?r ?s3 =
        (Ok (), ?s3\<lparr>enqueued := enqueued ?s3 @ l\<rparr>)"
      and lt: "\<forall>x \<in> set l. s_topic x = order_snapshot_topic c"
      and lr: "takes_snapshots B c \<longrightarrow> l = [snapshot_record c ?r]"
      by (rule publish_snapshot_done [OF B, of c ?r ?s3])
    show ?thesis
      using acked l lt lr
      by (intro created [of part off l])
        (simp_all add: create_order_def mk bindC_def gets_def modify_def ret_def Let_def
          tot)
  next
    case (failed code t s')
    then show ?thesis
      by (intro that(2) [of code t "enqueued s'"])
        (auto simp: create_order_def mk bindC_def Let_def)
  qed
qed

lemma delete_order_unknown:
  "app_orders s oid = None \<Longrightarrow>
   delete_order B c oid s = (Raise (HTTPException 404 (''no order '' @ oid)), s)"
  by (simp add: delete_order_def get_order_record_def raise_def)

abbreviation tombstone_record :: "settings \<Rightarrow> string \<Rightarrow> sent" where
  "tombstone_record c oid \<equiv> \<lparr>s_topic = order_snapshot_topic c, s_key = oid, s_value = None\<rparr>"

lemma delete_order_proceeds:
  assumes B: "broker_ok B" and r: "app_orders s oid = Some r"
  obtains (deleted) part off where
      "delete_order B c oid s =
         (Ok (), s\<lparr>enqueued := enqueued s @ [tombstone_record c oid],
                   app_orders := (app_orders s)(oid := None)\<rparr>)"
      and "b_report B (enqueued s @ [tombstone_record c oid]) = Some (Reported part off)"
  | (failed) code t l where
      "delete_order B c oid s = (Raise (HTTPException code t), s\<lparr>enqueued := l\<rparr>)"
      and "code = 502 \<or> code = 504"
      and "l = enqueued s \<or> l = enqueued s @ [tombstone_record c oid]"
proof -
  obtain q t where pt: "publish_tombstone B c oid s = (q, t)" by (cases "publish_tombstone B c oid s")
  then have pb: "publish_blocking B c (order_snapshot_topic c) oid None
      (''tombstone for '' @ oid) s = (q, t)"
    by (simp add: publish_tombstone_def)
  show ?thesis
  proof (cases q)
    case (Ok d)
    from publish_blocking_Ok [OF pb [unfolded Ok]]
    have t: "t = s\<lparr>enqueued := enqueued s @ [tombstone_record c oid]\<rparr>"
      and rep: "b_report B (enqueued t) = Some (Reported (dr_partition d) (dr_offset d))"
      by auto
    show ?thesis
      using Ok pt r rep unfolding t
      by (intro deleted [of "dr_partition d" "dr_offset d"])
        (simp_all add: delete_order_def get_order_record_def bindC_def tryC_def ret_def on_orders_def
          remove_def gets_def)
  next
    case (Raise e)
    have fr: "t = s \<or> t = s\<lparr>enqueued := enqueued s @ [tombstone_record c oid]\<rparr>"
      using publish_blocking_Raise [OF pb [unfolded Raise]] .
    from publish_blocking_exn [OF B pb [unfolded Raise]]
    consider m where "e = DeliveryFailed m" | m where "e = DeliveryTimeout m" by blast
    then show ?thesis
    proof cases
      case (1 m)
      with pt Raise fr r show ?thesis
        by (intro failed [of 502 m "enqueued t"])
          (auto simp: delete_order_def get_order_record_def bindC_def tryC_def raise_def gets_def)
    next
      case (2 m)
      with pt Raise fr r show ?thesis
        by (intro failed [of 504 m "enqueued t"])
          (auto simp: delete_order_def get_order_record_def bindC_def tryC_def raise_def gets_def)
    qed
  next
    case (Exit n)
    with pb publish_blocking_no_exit show ?thesis by blast
  qed
qed

text \<open>One request: the store invariant is kept and the status is one the API documents.\<close>

definition documented_status :: "int \<Rightarrow> bool" where
  "documented_status code \<longleftrightarrow> code \<in> {200, 201, 204, 404, 409, 422, 502, 504}"

lemma handle_create_ok:
  assumes "broker_ok B" "pydantic_ok P" "store_ok (app_orders s)" "create_order_request_ok body"
    and "handle_request B P c (PostOrder hex eid now body) s = (code, t)"
  shows "store_ok (app_orders t) \<and> documented_status code"
proof (cases "pay_amount (cor_payment body) = item_sum (cor_items body)")
  case False
  with assms show ?thesis
    by (auto simp: create_order_mismatch http_status_def documented_status_def)
next
  case True
  note reg = register_store_ok [OF assms(3) mk_created_payload [OF assms(4) True]]
  from assms(1,2,4) True show ?thesis
  proof (cases rule: create_order_proceeds [where c = c and hex = hex and eid = eid and now = now and s = s])
    case (created part off l)
    with assms(5) reg [of "new_order_id hex"] show ?thesis
      by (auto simp: http_status_def documented_status_def)
  next
    case (failed code' t' l)
    with assms(3,5) show ?thesis by (auto simp: http_status_def documented_status_def)
  qed
qed

lemma handle_publish_ok:
  assumes B: "broker_ok B" and st: "store_ok (app_orders s)"
    and run: "handle_request B P c (PostEvent eid now oid body) s = (code, t)"
  shows "store_ok (app_orders t) \<and> documented_status code"
proof (cases "app_orders s oid")
  case None
  with st run show ?thesis
    by (auto simp: publish_event_unknown http_status_def documented_status_def)
next
  case (Some r)
  show ?thesis
  proof (cases "validate_payload P (per_event_type body) (per_payload body)")
    case (Inl e)
    with Some st run show ?thesis
      by (auto simp: publish_event_malformed http_status_def documented_status_def)
  next
    case (Inr m)
    have rok: "order_ok oid r" using store_okD [OF st Some] .
    then have pos: "0 \<le> o_last_sequence r" by (simp add: order_ok_def)
    show ?thesis
    proof (cases "per_force body \<or> is_legal_transition (per_event_type body) (Some (o_state r))")
      case False
      with Some Inr st run show ?thesis
        by (auto simp: publish_event_illegal http_status_def documented_status_def)
    next
      case True
      from B Some Inr True pos show ?thesis
      proof (cases rule: publish_event_proceeds
          [where B = B and P = P and c = c and eid = eid and now = now and oid = oid and body = body
            and s = s])
        case (published part off l)
        with run rok st show ?thesis
          by (auto simp: http_status_def documented_status_def order_ok_def intro!: store_ok_upd)
      next
        case (failed code' t' l)
        with run rok st show ?thesis
          by (auto simp: http_status_def documented_status_def order_ok_def intro!: store_ok_upd)
      qed
    qed
  qed
qed

lemma handle_delete_ok:
  assumes B: "broker_ok B" and st: "store_ok (app_orders s)"
    and run: "handle_request B P c (DeleteOrder oid) s = (code, t)"
  shows "store_ok (app_orders t) \<and> documented_status code"
proof (cases "app_orders s oid")
  case None
  with st run show ?thesis
    by (auto simp: delete_order_unknown http_status_def documented_status_def)
next
  case (Some r)
  from B Some show ?thesis
  proof (cases rule: delete_order_proceeds [where c = c])
    case (deleted part off)
    with run st show ?thesis
      by (auto simp: http_status_def documented_status_def store_ok_def split: if_splits)
  next
    case (failed code' t' l)
    with run st show ?thesis by (auto simp: http_status_def documented_status_def)
  qed
qed

lemma handle_get_ok:
  assumes "store_ok (app_orders s)" and "handle_request B P c (GetOrder oid) s = (code, t)"
  shows "store_ok (app_orders t) \<and> documented_status code"
  using assms
  by (auto simp: get_order_def get_order_record_def ret_def raise_def http_status_def
      documented_status_def split: option.splits)

lemma handle_request_ok:
  assumes "broker_ok B" "pydantic_ok P" "store_ok (app_orders s)" "request_ok q"
    and "handle_request B P c q s = (code, t)"
  shows "store_ok (app_orders t) \<and> documented_status code"
proof (cases q)
  case (PostOrder hex eid now body)
  then show ?thesis using assms handle_create_ok by (metis request_ok.simps(1))
next
  case (PostEvent eid now oid body)
  then show ?thesis using assms handle_publish_ok by metis
next
  case (DeleteOrder oid)
  then show ?thesis using assms handle_delete_ok by metis
next
  case (GetOrder oid)
  then show ?thesis using assms handle_get_ok by metis
next
  case GetHealth
  then show ?thesis using assms by (auto simp: documented_status_def)
qed

lemma serve_ok:
  assumes "broker_ok B" "pydantic_ok P" "store_ok (app_orders s)" "list_all request_ok qs"
    and "serve B P c qs s = (codes, t)"
  shows "store_ok (app_orders t) \<and> list_all documented_status codes"
  using assms(3-5)
proof (induction qs arbitrary: s codes)
  case Nil
  then show ?case by simp
next
  case (Cons q qs)
  obtain code u where h: "handle_request B P c q s = (code, u)" by (cases "handle_request B P c q s")
  obtain codes' where sv: "serve B P c qs u = (codes', t)" "codes = code # codes'"
    using Cons.prems h by (auto split: prod.splits)
  have "store_ok (app_orders u) \<and> documented_status code"
    using handle_request_ok [OF assms(1,2) Cons.prems(1) _ h] Cons.prems by simp
  with Cons.IH [OF _ _ sv(1)] Cons.prems sv(2) show ?case by simp
qed

section \<open>Properties\<close>

definition demo_item :: order_item where
  "demo_item = \<lparr>sku = ''sku-1'', qty = 2, unit_price = 50\<rparr>"

definition demo_body :: create_order_request where
  "demo_body =
     \<lparr>cor_customer_id = ''cust-1'', cor_items = [demo_item],
      cor_payment = \<lparr>pay_method = CARD, pay_reference = ''ref-1'', pay_amount = 100\<rparr>\<rparr>"

definition demo_created :: order where
  "demo_created =
     \<lparr>o_order_id = ''ord-1'', o_customer_id = ''cust-1'', o_items = [demo_item],
      o_total_amount = 100, o_payment = cor_payment demo_body, o_state = S_CREATED,
      o_last_sequence = 1\<rparr>"

definition demo_app :: order_app where
  "demo_app = app_init\<lparr>app_orders := [''ord-1'' \<mapsto> demo_created]\<rparr>"

text \<open>C21. The checks of \<open>publish_event\<close> run in the documented order and spend nothing: an unknown
  order is a 404 whatever the body says, a malformed payload of a known order is a 422 even when
  the transition would be illegal, an unforced illegal transition with a well-formed payload is a
  409, and in all three cases neither the topic nor the order store changes (no sequence number is
  burned).\<close>

theorem publish_event_error_precedence:
  "(app_orders s oid = None \<longrightarrow>
      publish_event B P c eid now oid body s =
        (Raise (HTTPException 404 (''no order '' @ oid)), s)) \<and>
   (\<forall>r e. app_orders s oid = Some r \<longrightarrow>
      validate_payload P (per_event_type body) (per_payload body) = Inl e \<longrightarrow>
      publish_event B P c eid now oid body s = (Raise (HTTPException 422 (exn_text e)), s)) \<and>
   (\<forall>r m. app_orders s oid = Some r \<longrightarrow>
      validate_payload P (per_event_type body) (per_payload body) = Inr m \<longrightarrow>
      \<not> per_force body \<longrightarrow>
      \<not> is_legal_transition (per_event_type body) (Some (o_state r)) \<longrightarrow>
      publish_event B P c eid now oid body s =
        (Raise (HTTPException 409 (order_error_text (IllegalTransition oid (o_state r)
           (per_event_type body) (EXPECTED_NEXT_EVENT (Some (o_state r)))))), s))"
  by (intro conjI allI impI)
    (simp_all add: publish_event_unknown publish_event_malformed publish_event_illegal)

theorem publish_event_error_precedence_witness:
  "publish_event accepting_broker strict_pydantic default_settings ''e'' 0 ''ord-2''
     \<lparr>per_event_type = PACKED, per_payload = [], per_force = False\<rparr> demo_app =
     (Raise (HTTPException 404 ''no order ord-2''), demo_app) \<and>
   publish_event accepting_broker strict_pydantic default_settings ''e'' 0 ''ord-1''
     \<lparr>per_event_type = SHIPPED, per_payload = [], per_force = False\<rparr> demo_app =
     (Raise (HTTPException 422 ''payload does not match its schema''), demo_app) \<and>
   fst (publish_event accepting_broker strict_pydantic default_settings ''e'' 0 ''ord-1''
     \<lparr>per_event_type = DELIVERED, per_payload = [], per_force = False\<rparr> demo_app) =
     Raise (HTTPException 409 ''order ord-1 is CREATED; expected PACKED but got DELIVERED'')"
  using publish_event_error_precedence [of demo_app "''ord-2''" accepting_broker strict_pydantic
      default_settings "''e''" 0 "\<lparr>per_event_type = PACKED, per_payload = [], per_force = False\<rparr>"]
    publish_event_error_precedence [of demo_app "''ord-1''" accepting_broker strict_pydantic
      default_settings "''e''" 0 "\<lparr>per_event_type = SHIPPED, per_payload = [], per_force = False\<rparr>"]
    publish_event_error_precedence [of demo_app "''ord-1''" accepting_broker strict_pydantic
      default_settings "''e''" 0 "\<lparr>per_event_type = DELIVERED, per_payload = [], per_force = False\<rparr>"]
  by (simp add: demo_app_def app_init_def demo_created_def validate_payload_def
      shipped_payload_of_def is_legal_transition_def)

text \<open>C7. Past the checks, \<open>publish_event\<close> has exactly two outcomes. Either the broker reported this
  record, the caller gets its sequence number, and the store holds the order with the sequence
  advanced by one and the state moved (unless a forced event was illegal, which leaves the state);
  or the caller gets a 502 or 504, the sequence number is spent all the same and the state has not
  moved. No other order changes.\<close>

theorem publish_event_outcomes:
  assumes "broker_ok B" and "app_orders s oid = Some r"
    and "validate_payload P (per_event_type body) (per_payload body) = Inr m"
    and "per_force body \<or> is_legal_transition (per_event_type body) (Some (o_state r))"
    and "0 \<le> o_last_sequence r"
  shows
    "(\<exists>resp part off l t. publish_event B P c eid now oid body s = (Ok resp, t) \<and>
        pr_sequence resp = o_last_sequence r + 1 \<and>
        enqueued t = enqueued s @ [\<lparr>s_topic = order_lifecycle_topic c, s_key = oid,
          s_value = Some (json_dumps (dump_lifecycle_event P
            \<lparr>event_id = eid, ev_order_id = oid, ev_sequence = o_last_sequence r + 1,
             ev_type = per_event_type body, occurred_at = now, payload = per_payload body\<rparr>))\<rparr>] @ l \<and>
        b_report B (take (Suc (length (enqueued s))) (enqueued t)) = Some (Reported part off) \<and>
        pr_partition resp = part \<and> pr_offset resp = off \<and>
        app_orders t = (app_orders s)(oid \<mapsto> r\<lparr>o_last_sequence := o_last_sequence r + 1,
          o_state := (if per_force body \<and>
                         \<not> is_legal_transition (per_event_type body) (Some (o_state r))
                      then o_state r else RESULTING_STATE (per_event_type body))\<rparr>))
     \<or> (\<exists>code msg t. publish_event B P c eid now oid body s = (Raise (HTTPException code msg), t) \<and>
        code \<in> {502, 504} \<and>
        app_orders t = (app_orders s)(oid \<mapsto> r\<lparr>o_last_sequence := o_last_sequence r + 1\<rparr>))"
  using assms
proof (cases rule: publish_event_proceeds
    [where B = B and P = P and c = c and eid = eid and now = now and oid = oid and body = body
      and s = s])
  case (published part off l)
  then show ?thesis by auto
next
  case (failed code t l)
  then show ?thesis by auto
qed

theorem publish_event_outcomes_witness:
  "\<exists>resp t. publish_event accepting_broker strict_pydantic default_settings ''e'' 0 ''ord-1''
       \<lparr>per_event_type = PACKED, per_payload = [], per_force = False\<rparr> demo_app = (Ok resp, t) \<and>
     pr_sequence resp = 2 \<and> app_orders t ''ord-1'' = Some (demo_created\<lparr>o_last_sequence := 2, o_state := S_PACKED\<rparr>)"
proof -
  let ?body = "\<lparr>per_event_type = PACKED, per_payload = [], per_force = False\<rparr>"
  have 1: "app_orders demo_app ''ord-1'' = Some demo_created"
    "validate_payload strict_pydantic (per_event_type ?body) (per_payload ?body) = Inr None"
    "is_legal_transition (per_event_type ?body) (Some (o_state demo_created))"
    "o_last_sequence demo_created = 1"
    by (simp_all add: demo_app_def app_init_def demo_created_def validate_payload_def
        is_legal_transition_def)
  have "fst (publish_event accepting_broker strict_pydantic default_settings ''e'' 0 ''ord-1'' ?body
      demo_app) \<noteq> Raise (HTTPException code msg)" for code msg
    using 1 by (simp add: publish_event_def get_order_record_def on_orders_def reserve_def bindC_def
        gets_def mk_lifecycle_event_def publish_http_def tryC_def publish_and_wait_def
        publish_blocking_def produce_keyed_def accepting_broker_def ret_def commit_def
        publish_order_snapshot_def publish_snapshot_def Let_def)
  with publish_event_outcomes [of accepting_broker demo_app "''ord-1''" demo_created strict_pydantic
      ?body None default_settings "''e''" 0] 1
  show ?thesis by (fastforce simp: 1)
qed

text \<open>C22. Creation is all or nothing: a body whose payment is not the item sum is a 422 with nothing
  published; otherwise either the ORDER\_CREATED record was reported by the broker and the store holds
  the new order at sequence 1, or the caller gets a 502 or 504 and the store is as before.\<close>

theorem create_order_outcomes:
  assumes "broker_ok B" and "pydantic_ok P" and "create_order_request_ok body"
  shows
    "(pay_amount (cor_payment body) \<noteq> item_sum (cor_items body) \<and>
        (\<exists>msg. create_order B P c hex eid now body s = (Raise (HTTPException 422 msg), s))) \<or>
     (pay_amount (cor_payment body) = item_sum (cor_items body) \<and>
        (\<exists>resp t r. create_order B P c hex eid now body s = (Ok resp, t) \<and>
          cr_order_id resp = new_order_id hex \<and> cr_sequence resp = 1 \<and>
          b_report B (take (Suc (length (enqueued s))) (enqueued t)) =
            Some (Reported (cr_partition resp) (cr_offset resp)) \<and>
          app_orders t = (app_orders s)(new_order_id hex \<mapsto> r) \<and>
          order_ok (new_order_id hex) r \<and> o_state r = S_CREATED \<and> o_last_sequence r = 1)) \<or>
     (\<exists>code msg t. create_order B P c hex eid now body s = (Raise (HTTPException code msg), t) \<and>
        code \<in> {502, 504} \<and> app_orders t = app_orders s)"
proof (cases "pay_amount (cor_payment body) = item_sum (cor_items body)")
  case False
  with assms show ?thesis by (auto simp: create_order_mismatch)
next
  case True
  let ?r = "fst (register (app_orders s) (new_order_id hex) (created_payload body))"
  have reg: "snd (register (app_orders s) (new_order_id hex) (created_payload body)) =
      (app_orders s)(new_order_id hex \<mapsto> ?r)"
    by (simp add: register_def Let_def)
  have ok: "order_ok (new_order_id hex) ?r"
    using assms(3) True
    by (simp add: order_ok_def register_def Let_def created_payload_def create_order_request_ok_def)
  from assms True show ?thesis
  proof (cases rule: create_order_proceeds [where c = c and hex = hex and eid = eid and now = now and s = s])
    case (created part off l)
    then show ?thesis
      using True ok
      by (intro disjI2 disjI1 conjI exI [of _ ?r] exI) (auto simp: reg)
  next
    case (failed code t l)
    then show ?thesis by auto
  qed
qed

theorem create_order_outcomes_witness:
  "\<exists>resp t r. create_order accepting_broker strict_pydantic default_settings ''0123456789abcdef'' ''e'' 0
       demo_body app_init = (Ok resp, t) \<and> cr_order_id resp = ''ord-0123456789ab'' \<and>
     app_orders t ''ord-0123456789ab'' = Some r \<and> o_state r = S_CREATED"
proof -
  have ok: "create_order_request_ok demo_body"
    by (simp add: create_order_request_ok_def demo_body_def demo_item_def valid_item_def
        valid_payment_def)
  have eq: "pay_amount (cor_payment demo_body) = item_sum (cor_items demo_body)"
    by (simp add: demo_body_def demo_item_def item_sum_def line_total_def)
  have "fst (create_order accepting_broker strict_pydantic default_settings ''0123456789abcdef''
      ''e'' 0 demo_body app_init) \<noteq> Raise (HTTPException code msg)" for code msg
    by (simp add: create_order_def mk_created_payload [OF ok eq]
        mk_created_event [OF strict_pydantic_ok ok eq] bindC_def gets_def modify_def
        publish_http_def tryC_def publish_and_wait_def publish_blocking_def produce_keyed_def
        accepting_broker_def ret_def publish_order_snapshot_def publish_snapshot_def Let_def)
  with create_order_outcomes [OF accepting_broker_ok strict_pydantic_ok ok, of default_settings
      "''0123456789abcdef''" "''e''" 0 app_init] eq
  show ?thesis by (fastforce simp: new_order_id_def)
qed





end
