(* ===== verification/Producer_Threads.thy ===== *)
theory Producer_Threads
  imports Routes
begin

text \<open>
  The threads of the order service: the poll thread of
  \<^verbatim>\<open>src/order_service/producer/kafka_producer.py\<close>, which alone runs delivery callbacks, the request
  handlers that block in \<^verbatim>\<open>_publish_blocking\<close> until their callback has run, and the lifespan of
  \<^verbatim>\<open>src/order_service/producer/app.py\<close> that starts and stops them. The step relation interleaves
  them; \<open>Order_Producer\<close> has the same handlers run alone, with what they were told as a function of
  the records sent.
\<close>

section \<open>The threads\<close>

datatype waiter =
    NotSent
  | Blocked \<comment> \<open>in \<^verbatim>\<open>done.wait\<close>\<close>
  | Answered report
  | GaveUp \<comment> \<open>the wait timed out\<close>

text \<open>Where the owner of the producer is: not between \<^verbatim>\<open>start\<close> and \<^verbatim>\<open>stop\<close>, between them, or after the
  first or the second statement of \<^verbatim>\<open>stop\<close>. The lifespan makes a new producer for every life of the
  service; the class allows one object to be started again after a stop, and so does the step relation.
  The join waits five seconds at most: a poll loop may outlive it.\<close>

datatype owner_at = Down | Serving | Flushed | Signalled

text \<open>\<open>testing\<close> and \<open>polling\<close> count the poll loops before the test of \<^verbatim>\<open>_poll_stop\<close> and inside
  \<^verbatim>\<open>poll\<close>; \<open>poll_thread\<close> is whether \<^verbatim>\<open>_poll_thread\<close> is set. \<open>due_reports\<close> holds the reports that reached
  the client and whose callbacks have not run, \<open>outcomes\<close> what the callbacks stored before
  \<^verbatim>\<open>done.set()\<close>, and \<open>reported_to\<close> what the broker said.\<close>

record threads =
  poll_stop :: bool
  poll_thread :: bool
  testing :: nat
  polling :: nat
  owner_pc :: owner_at
  waiters :: "nat \<Rightarrow> waiter"
  due_reports :: "(nat \<times> report) list"
  outcomes :: "nat \<rightharpoonup> report"
  reported_to :: "nat \<rightharpoonup> report"

definition threads_init :: threads where
  "threads_init =
     \<lparr>poll_stop = False, poll_thread = False, testing = 0, polling = 0, owner_pc = Down,
      waiters = (\<lambda>_. NotSent), due_reports = [], outcomes = Map.empty, reported_to = Map.empty\<rparr>"

text \<open>\<^verbatim>\<open>start\<close>: a second call while the thread is set does nothing.\<close>

definition producer_start :: "threads \<Rightarrow> threads" where
  "producer_start s =
     (if poll_thread s then s
      else s\<lparr>poll_stop := False, poll_thread := True, testing := Suc (testing s)\<rparr>)"

text \<open>The callbacks of every report at hand, in order: \<^verbatim>\<open>on_delivery\<close> stores the outcome and sets the
  event.\<close>

definition on_delivery :: "nat \<times> report \<Rightarrow> threads \<Rightarrow> threads" where
  "on_delivery x s = s\<lparr>outcomes := (outcomes s)(fst x \<mapsto> snd x)\<rparr>"

definition serve_due :: "threads \<Rightarrow> threads" where
  "serve_due s = (fold on_delivery (due_reports s) s)\<lparr>due_reports := []\<rparr>"

inductive threads_step :: "threads \<Rightarrow> threads \<Rightarrow> bool" where
  start: "owner_pc s = Down \<Longrightarrow> threads_step s ((producer_start s)\<lparr>owner_pc := Serving\<rparr>)"
| send: "waiters s i = NotSent \<Longrightarrow>
     threads_step s (s\<lparr>waiters := (waiters s)(i := Blocked)\<rparr>)"
| report: "waiters s i \<noteq> NotSent \<Longrightarrow> reported_to s i = None \<Longrightarrow>
     threads_step s (s\<lparr>due_reports := due_reports s @ [(i, r)], reported_to := (reported_to s)(i \<mapsto> r)\<rparr>)"
| check_go: "0 < testing s \<Longrightarrow> \<not> poll_stop s \<Longrightarrow>
     threads_step s (s\<lparr>testing := testing s - 1, polling := Suc (polling s)\<rparr>)"
| check_exit: "0 < testing s \<Longrightarrow> poll_stop s \<Longrightarrow> threads_step s (s\<lparr>testing := testing s - 1\<rparr>)"
| poll: "0 < polling s \<Longrightarrow>
     threads_step s ((serve_due s)\<lparr>polling := polling s - 1, testing := Suc (testing s)\<rparr>)"
| wake: "waiters s i = Blocked \<Longrightarrow> outcomes s i = Some r \<Longrightarrow>
     threads_step s (s\<lparr>waiters := (waiters s)(i := Answered r)\<rparr>)"
| time_out: "waiters s i = Blocked \<Longrightarrow> outcomes s i = None \<Longrightarrow>
     threads_step s (s\<lparr>waiters := (waiters s)(i := GaveUp)\<rparr>)"
| stop_flush: "owner_pc s = Serving \<Longrightarrow> threads_step s ((serve_due s)\<lparr>owner_pc := Flushed\<rparr>)"
| stop_signal: "owner_pc s = Flushed \<Longrightarrow> threads_step s (s\<lparr>poll_stop := True, owner_pc := Signalled\<rparr>)"
| stop_join: "owner_pc s = Signalled \<Longrightarrow> threads_step s (s\<lparr>poll_thread := False, owner_pc := Down\<rparr>)"

inductive threads_reach :: "threads \<Rightarrow> bool" where
  reach_init: "threads_reach threads_init"
| reach_step: "threads_reach s \<Longrightarrow> threads_step s t \<Longrightarrow> threads_reach t"

section \<open>The lifespan\<close>

datatype app_call = StartPolling | Respond int | FlushProducer | SignalStop | JoinThread

record app_process =
  ap_calls :: "app_call list"
  ap_state :: "order_app option" \<comment> \<open>\<^verbatim>\<open>app.state\<close>\<close>

definition app_call :: "app_call \<Rightarrow> (app_process, unit) comp" where
  "app_call k = modify (\<lambda>s. s\<lparr>ap_calls := ap_calls s @ [k]\<rparr>)"

definition producer_stop :: "(app_process, unit) comp" where
  "producer_stop = thenC (app_call FlushProducer) (thenC (app_call SignalStop) (app_call JoinThread))"

definition serve_one :: "broker \<Rightarrow> pydantic \<Rightarrow> settings \<Rightarrow> http_request \<Rightarrow> (app_process, unit) comp" where
  "serve_one B P c q s =
     (case ap_state s of
        None \<Rightarrow> (Raise (OtherError ''AttributeError'' ''state''), s)
      | Some a \<Rightarrow> (let (code, a') = handle_request B P c q a
                  in app_call (Respond code) (s\<lparr>ap_state := Some a'\<rparr>)))"

text \<open>\<^verbatim>\<open>lifespan\<close>: what happens inside \<^verbatim>\<open>yield\<close> is the requests and then, possibly, the exception
  the server shuts down with. \<open>new\<close> is the constructor of the client, given the configuration: it
  returns or raises.\<close>

definition lifespan ::
    "((string \<times> string) list \<Rightarrow> exn option) \<Rightarrow> broker \<Rightarrow> pydantic \<Rightarrow> settings \<Rightarrow> http_request list \<Rightarrow> exn option \<Rightarrow> (app_process, unit) comp" where
  "lifespan new B P raw qs failure =
     (case load_settings raw of
        Inl e \<Rightarrow> raise e
      | Inr c \<Rightarrow>
          (case new (producer_config c) of
             Some e \<Rightarrow> raise e
           | None \<Rightarrow>
               thenC (app_call StartPolling)
               (thenC (modify (\<lambda>s. s\<lparr>ap_state := Some app_init\<rparr>))
               (finallyC
                  (thenC (forC qs (serve_one B P c)) (case failure of None \<Rightarrow> ret () | Some e \<Rightarrow> raise e))
                  producer_stop))))"

text \<open>What the client documents of its constructor: idempotence with an \<^verbatim>\<open>acks\<close> other than all in-sync
  replicas is refused.\<close>

definition idempotence_checked :: "((string \<times> string) list \<Rightarrow> exn option) \<Rightarrow> bool" where
  "idempotence_checked new \<longleftrightarrow>
     (\<forall>cfg a. map_of cfg ''enable.idempotence'' = Some ''True'' \<longrightarrow> map_of cfg ''acks'' = Some a \<longrightarrow>
        a \<notin> {''all'', ''-1''} \<longrightarrow> (\<exists>n t. new cfg = Some (KafkaException n t)))"

definition checking_client :: "(string \<times> string) list \<Rightarrow> exn option" where
  "checking_client cfg =
     (if map_of cfg ''enable.idempotence'' = Some ''True'' \<and> map_of cfg ''acks'' \<notin> {Some ''all'', Some ''-1''}
      then Some (KafkaException (- 186) ''`acks` must be set to `all` when `enable.idempotence` is true'')
      else None)"

section \<open>Serving callbacks\<close>

lemma fold_on_delivery: "fold on_delivery l s = s\<lparr>outcomes := outcomes s ++ map_of (rev l)\<rparr>"
proof (induction l arbitrary: s)
  case (Cons x l)
  then show ?case
    by (cases s) (simp add: on_delivery_def map_add_def fun_eq_iff split: option.splits)
qed simp

lemma serve_due_simps [simp]:
  "poll_stop (serve_due s) = poll_stop s" "poll_thread (serve_due s) = poll_thread s"
  "testing (serve_due s) = testing s" "polling (serve_due s) = polling s"
  "owner_pc (serve_due s) = owner_pc s" "waiters (serve_due s) = waiters s"
  "due_reports (serve_due s) = []" "reported_to (serve_due s) = reported_to s"
  by (simp_all add: serve_due_def fold_on_delivery)

definition reports_inv :: "threads \<Rightarrow> bool" where
  "reports_inv s \<longleftrightarrow>
     (\<forall>i r. outcomes s i = Some r \<longrightarrow> reported_to s i = Some r) \<and>
     (\<forall>i r. (i, r) \<in> set (due_reports s) \<longrightarrow> reported_to s i = Some r) \<and>
     (\<forall>i r. reported_to s i = Some r \<longrightarrow> outcomes s i = Some r \<or> (i, r) \<in> set (due_reports s)) \<and>
     (\<forall>i r. waiters s i = Answered r \<longrightarrow> reported_to s i = Some r)"

text \<open>While the owner has not signalled, a poll loop runs and sees no stop.\<close>

definition poller_inv :: "threads \<Rightarrow> bool" where
  "poller_inv s \<longleftrightarrow>
     (owner_pc s = Serving \<or> owner_pc s = Flushed \<longrightarrow>
        \<not> poll_stop s \<and> poll_thread s \<and> 0 < testing s + polling s) \<and>
     (owner_pc s = Down \<longrightarrow> \<not> poll_thread s)"

lemma serve_due_outcomes:
  assumes "reports_inv s"
  shows "outcomes (serve_due s) i = Some r \<longleftrightarrow> reported_to s i = Some r"
proof -
  have "outcomes (serve_due s) i = (case map_of (rev (due_reports s)) i of None \<Rightarrow> outcomes s i | Some r \<Rightarrow> Some r)"
    by (simp add: serve_due_def fold_on_delivery map_add_def)
  moreover have "map_of (rev (due_reports s)) i = Some x \<Longrightarrow> reported_to s i = Some x" for x
    using assms map_of_SomeD [of "rev (due_reports s)" i x] by (simp add: reports_inv_def)
  moreover have "map_of (rev (due_reports s)) i = None \<Longrightarrow> (i, x) \<notin> set (due_reports s)" for x
    by (metis map_of_eq_None_iff fst_conv image_eqI set_rev)
  moreover have "outcomes s i = Some r \<Longrightarrow> reported_to s i = Some r"
    "reported_to s i = Some r \<Longrightarrow> outcomes s i = Some r \<or> (i, r) \<in> set (due_reports s)"
    using assms by (simp_all add: reports_inv_def)
  ultimately show ?thesis by (cases "map_of (rev (due_reports s)) i") auto
qed

lemma serve_due_inv: "reports_inv s \<Longrightarrow> reports_inv (serve_due s)"
  using serve_due_outcomes [of s] by (simp add: reports_inv_def)

lemma reports_inv_frame:
  assumes "reports_inv s" and "outcomes t = outcomes s" and "due_reports t = due_reports s"
    and "reported_to t = reported_to s" and "\<And>i r. waiters t i = Answered r \<Longrightarrow> reported_to s i = Some r"
  shows "reports_inv t"
  using assms by (simp add: reports_inv_def)

lemma threads_step_reports: "threads_step s t \<Longrightarrow> reports_inv s \<Longrightarrow> reports_inv t"
proof (induction rule: threads_step.induct)
  case (start s)
  then show ?case by (simp add: producer_start_def reports_inv_def)
next
  case (report s i r)
  have old: "outcomes s j = Some x \<Longrightarrow> reported_to s j = Some x" "(j, x) \<in> set (due_reports s) \<Longrightarrow> reported_to s j = Some x"
    "reported_to s j = Some x \<Longrightarrow> outcomes s j = Some x \<or> (j, x) \<in> set (due_reports s)"
    "waiters s j = Answered x \<Longrightarrow> reported_to s j = Some x" for j x
    using report(3) by (simp_all add: reports_inv_def)
  show ?case
    unfolding reports_inv_def
  proof (intro conjI allI impI)
    fix j x
    let ?t = "s\<lparr>due_reports := due_reports s @ [(i, r)], reported_to := (reported_to s)(i \<mapsto> r)\<rparr>"
    show "outcomes ?t j = Some x \<Longrightarrow> reported_to ?t j = Some x" using old(1) [of j x] report(2) by auto
    show "(j, x) \<in> set (due_reports ?t) \<Longrightarrow> reported_to ?t j = Some x" using old(2) [of j x] report(2) by auto
    show "reported_to ?t j = Some x \<Longrightarrow> outcomes ?t j = Some x \<or> (j, x) \<in> set (due_reports ?t)"
      using old(3) [of j x] by (auto split: if_splits)
    show "waiters ?t j = Answered x \<Longrightarrow> reported_to ?t j = Some x" using old(4) [of j x] report(2) by auto
  qed
next
  case (poll s)
  show ?case
    by (rule reports_inv_frame [OF serve_due_inv [OF poll(2)]]) (use poll(2) in \<open>simp_all add: reports_inv_def\<close>)
next
  case (stop_flush s)
  show ?case
    by (rule reports_inv_frame [OF serve_due_inv [OF stop_flush(2)]]) (use stop_flush(2) in \<open>simp_all add: reports_inv_def\<close>)
qed (rule reports_inv_frame, assumption, simp_all add: reports_inv_def split: if_splits)+

lemma threads_step_poller: "threads_step s t \<Longrightarrow> poller_inv s \<Longrightarrow> poller_inv t"
  by (induction rule: threads_step.induct) (simp_all add: poller_inv_def producer_start_def)

lemma threads_reach_inv: "threads_reach s \<Longrightarrow> reports_inv s \<and> poller_inv s"
proof (induction rule: threads_reach.induct)
  case reach_init
  then show ?case by (simp add: reports_inv_def poller_inv_def threads_init_def)
next
  case (reach_step s t)
  then show ?case using threads_step_reports threads_step_poller by blast
qed

text \<open>From a poll on, the waiter's event is set.\<close>

lemma poll_then_wake:
  assumes "reports_inv s" and "0 < polling s" and "waiters s i = Blocked" and "reported_to s i = Some r"
  shows "\<exists>t. (threads_step ^^ 2) s t \<and> waiters t i = Answered r"
proof -
  let ?p = "(serve_due s)\<lparr>polling := polling s - 1, testing := Suc (testing s)\<rparr>"
  let ?t = "?p\<lparr>waiters := (waiters ?p)(i := Answered r)\<rparr>"
  have "threads_step s ?p" by (rule poll [OF assms(2)])
  moreover have "threads_step ?p ?t"
    by (rule wake) (use serve_due_outcomes [OF assms(1)] assms in simp_all)
  ultimately have "(threads_step ^^ 2) s ?t" by (auto simp: numeral_2_eq_2)
  then show ?thesis by (intro exI [of _ ?t]) simp
qed

section \<open>Runs to look at\<close>

definition one_waiting :: threads where
  "one_waiting = threads_init\<lparr>poll_thread := True, testing := 1, owner_pc := Serving,
     waiters := (\<lambda>_. NotSent)(0 := Blocked), due_reports := [(0, Reported 2 7)], reported_to := [0 \<mapsto> Reported 2 7]\<rparr>"

lemma one_waiting_reached: "threads_reach one_waiting"
proof -
  let ?s1 = "(producer_start threads_init)\<lparr>owner_pc := Serving\<rparr>"
  let ?s2 = "?s1\<lparr>waiters := (waiters ?s1)(0 := Blocked)\<rparr>"
  have 1: "threads_reach ?s1" by (rule reach_step [OF reach_init start]) (simp add: threads_init_def)
  have "threads_reach ?s2"
    by (rule reach_step [OF 1 send]) (simp_all add: threads_init_def producer_start_def)
  from reach_step [OF this report [of ?s2 0 "Reported 2 7"]] show ?thesis
    by (simp add: one_waiting_def threads_init_def producer_start_def)
qed

lemma serve_requests_run:
  "\<exists>codes a'. serve B P c qs a = (codes, a') \<and>
     forC qs (serve_one B P c) \<lparr>ap_calls = l, ap_state = Some a\<rparr> =
       (Ok (), \<lparr>ap_calls = l @ map Respond codes, ap_state = Some a'\<rparr>)"
proof (induction qs arbitrary: a l)
  case Nil
  then show ?case by (simp add: ret_def)
next
  case (Cons q qs)
  obtain code b where q: "handle_request B P c q a = (code, b)" by (cases "handle_request B P c q a")
  obtain codes a' where "serve B P c qs b = (codes, a')"
    "forC qs (serve_one B P c) \<lparr>ap_calls = l @ [Respond code], ap_state = Some b\<rparr> =
       (Ok (), \<lparr>ap_calls = (l @ [Respond code]) @ map Respond codes, ap_state = Some a'\<rparr>)"
    using Cons.IH by blast
  moreover have "serve_one B P c q \<lparr>ap_calls = l, ap_state = Some a\<rparr> =
      (Ok (), \<lparr>ap_calls = l @ [Respond code], ap_state = Some b\<rparr>)"
    using q by (simp add: serve_one_def app_call_def modify_def)
  ultimately show ?case
    using q by (intro exI [of _ "code # codes"] exI [of _ a']) (simp add: bindC_def)
qed

lemma default_settings_load:
  "load_settings (default_settings\<lparr>producer_acks := a\<rparr>) = Inr (default_settings\<lparr>producer_acks := a\<rparr>)"
  "load_settings default_settings = Inr default_settings"
  by (simp_all add: load_settings_def refuse_checkpoint_under_exactly_once_def default_settings_def exactly_once_def
      blank_is_unset_def)

section \<open>Properties\<close>

text \<open>C11. A handler is never answered with another handler's report. However the poll thread, the
  handlers and the shutdown interleave, a handler that returned from its wait returned with exactly
  what the broker reported for its own record.\<close>

theorem waiters_get_their_own_report:
  assumes "threads_reach s" and "waiters s i = Answered r"
  shows "reported_to s i = Some r"
  using threads_reach_inv [OF assms(1)] assms(2) by (simp add: reports_inv_def)

theorem waiters_get_their_own_report_witness:
  "threads_reach (one_waiting\<lparr>testing := 1, polling := 0, due_reports := [], outcomes := [0 \<mapsto> Reported 2 7],
     waiters := (\<lambda>_. NotSent)(0 := Answered (Reported 2 7))\<rparr>) \<and> reported_to one_waiting 0 = Some (Reported 2 7)"
  (is "threads_reach ?t \<and> _")
proof -
  let ?s1 = "one_waiting\<lparr>testing := 0, polling := 1\<rparr>"
  let ?s2 = "one_waiting\<lparr>testing := 1, polling := 0, due_reports := [], outcomes := [0 \<mapsto> Reported 2 7]\<rparr>"
  have 1: "threads_reach ?s1"
    using reach_step [OF one_waiting_reached check_go] by (simp add: one_waiting_def threads_init_def)
  have 2: "threads_reach ?s2"
    using reach_step [OF 1 poll]
    by (simp add: one_waiting_def threads_init_def serve_due_def on_delivery_def)
  have 3: "threads_reach ?t"
    using reach_step [OF 2 wake [of ?s2 0 "Reported 2 7"]] by (simp add: one_waiting_def threads_init_def)
  with waiters_get_their_own_report [OF 3, of 0 "Reported 2 7"] show ?thesis by simp
qed

text \<open>C12. A handler whose record was reported can return. In every reachable state in which the producer
  is up, whatever happened before (earlier stops and restarts of the producer included), a handler that waits and
  whose record the broker has reported is at most three steps from returning with that report: the
  poll loop is alive, it is not told to stop, and its next poll runs the callback.\<close>

theorem reported_waiter_can_return:
  assumes "threads_reach s" and "owner_pc s = Serving" and "waiters s i = Blocked" and "reported_to s i = Some r"
  shows "\<exists>n t. n \<le> 3 \<and> (threads_step ^^ n) s t \<and> waiters t i = Answered r"
proof (cases "0 < polling s")
  case True
  with poll_then_wake [of s i r] threads_reach_inv [OF assms(1)] assms show ?thesis
    by (intro exI [of _ 2]) simp
next
  case False
  with threads_reach_inv [OF assms(1)] assms(2) have go: "0 < testing s" "\<not> poll_stop s"
    by (auto simp: poller_inv_def)
  let ?u = "s\<lparr>testing := testing s - 1, polling := Suc (polling s)\<rparr>"
  have u: "threads_step s ?u" by (rule check_go [OF go])
  have "reports_inv ?u" using threads_step_reports [OF u] threads_reach_inv [OF assms(1)] by blast
  then obtain t where "(threads_step ^^ 2) ?u t" "waiters t i = Answered r"
    using poll_then_wake [of ?u i r] assms by auto
  with u show ?thesis
    by (intro exI [of _ 3] exI [of _ t]) (auto simp: numeral_3_eq_3 numeral_2_eq_2 intro: relpowp_Suc_I2)
qed

theorem reported_waiter_can_return_witness:
  "\<exists>n t. n \<le> 3 \<and> (threads_step ^^ n) one_waiting t \<and> waiters t 0 = Answered (Reported 2 7)"
  by (rule reported_waiter_can_return [OF one_waiting_reached]) (simp_all add: one_waiting_def)

text \<open>C38. The lifespan always ends with the producer flushed before its poll thread is told to stop and
  joined, whether the server returns or fails, and each life of the process begins with an empty order
  store: its answers are those of the requests served from nothing, whatever an earlier life held.\<close>

theorem lifespan_always_flushes:
  assumes "load_settings raw = Inr c" and "new (producer_config c) = None"
  shows "\<exists>codes a. serve B P c qs app_init = (codes, a) \<and>
    lifespan new B P raw qs failure s =
      ((case failure of None \<Rightarrow> Ok () | Some e \<Rightarrow> Raise e),
       \<lparr>ap_calls = ap_calls s @ StartPolling # map Respond codes @ [FlushProducer, SignalStop, JoinThread],
        ap_state = Some a\<rparr>)"
proof -
  obtain codes a where "serve B P c qs app_init = (codes, a)"
    "forC qs (serve_one B P c) \<lparr>ap_calls = ap_calls s @ [StartPolling], ap_state = Some app_init\<rparr> =
       (Ok (), \<lparr>ap_calls = (ap_calls s @ [StartPolling]) @ map Respond codes, ap_state = Some a\<rparr>)"
    using serve_requests_run by blast
  then show ?thesis
    using assms
    by (cases s; cases failure)
      (simp_all add: lifespan_def finallyC_def bindC_def app_call_def modify_def producer_stop_def ret_def raise_def)
qed

theorem lifespan_always_flushes_witness:
  "\<exists>a. lifespan checking_client accepting_broker strict_pydantic default_settings [GetOrder ''ord-9''] (Some (OtherError ''RuntimeError'' ''boom''))
       \<lparr>ap_calls = [], ap_state = None\<rparr> =
     (Raise (OtherError ''RuntimeError'' ''boom''),
      \<lparr>ap_calls = [StartPolling, Respond 404, FlushProducer, SignalStop, JoinThread], ap_state = Some a\<rparr>)"
proof -
  have "checking_client (producer_config default_settings) = None"
    by (simp add: checking_client_def producer_config_def default_settings_def)
  from lifespan_always_flushes [OF default_settings_load(2), of checking_client, OF this, of accepting_broker strict_pydantic "[GetOrder ''ord-9'']"
      "Some (OtherError ''RuntimeError'' ''boom'')" "\<lparr>ap_calls = [], ap_state = None\<rparr>"]
  show ?thesis
    by (simp add: get_order_def get_order_record_def app_init_def raise_def http_status_def bindC_def gets_def)
qed

text \<open>C39. The acks lever alone keeps the order service from starting. The settings accept every
  \<^verbatim>\<open>PRODUCER_ACKS\<close> together with the default idempotence, but the client refuses the configuration made
  of them unless it asks for all in-sync replicas: the lifespan raises before the poll thread is started,
  before the order store exists and before any request is answered.\<close>

theorem weak_acks_refused_under_idempotence:
  assumes "idempotence_checked new" and "load_settings raw = Inr c"
    and "producer_idempotence c" and "producer_acks c \<noteq> ACKS_ALL"
  shows "\<exists>n t. lifespan new B P raw qs failure s = (Raise (KafkaException n t), s)"
proof -
  have "map_of (producer_config c) ''enable.idempotence'' = Some ''True''"
    "map_of (producer_config c) ''acks'' = Some (producer_acks_value (producer_acks c))"
    using assms(3) by (simp_all add: producer_config_def)
  moreover have "producer_acks_value (producer_acks c) \<notin> {''all'', ''-1''}"
    using assms(4) by (cases "producer_acks c") simp_all
  ultimately obtain n t where "new (producer_config c) = Some (KafkaException n t)"
    using assms(1) unfolding idempotence_checked_def by blast
  with assms(2) show ?thesis by (simp add: lifespan_def raise_def)
qed

theorem weak_acks_refused_under_idempotence_witness:
  "producer_idempotence default_settings \<and>
   (\<exists>n t. lifespan checking_client accepting_broker strict_pydantic (default_settings\<lparr>producer_acks := ACKS_LEADER\<rparr>)
      [GetOrder ''ord-9''] None \<lparr>ap_calls = [], ap_state = None\<rparr> =
      (Raise (KafkaException n t), \<lparr>ap_calls = [], ap_state = None\<rparr>))"
proof -
  have "idempotence_checked checking_client" by (auto simp: idempotence_checked_def checking_client_def)
  from weak_acks_refused_under_idempotence [OF this default_settings_load(1)] show ?thesis
    by (simp add: default_settings_def)
qed

end
