(* ===== verification/Kafka_Client.thy ===== *)
theory Kafka_Client
  imports Settings_Model Json_Values
begin

text \<open>
  The interface of the consumer processes to \<^verbatim>\<open>confluent_kafka\<close>. The client library is not part
  of the repository, so its answers are a parameter: \<open>kafka\<close> gives, for every call, what it
  returned or raised as a function of the calls made before it. The state a computation runs on
  starts with the \<open>trace\<close> of those calls, each with the exception it raised if any; theorems about
  ordering (a commit only after a flush) are theorems about this trace. The delivery callbacks the
  code registers run inside \<^verbatim>\<open>flush\<close> and \<^verbatim>\<open>poll\<close>; an answer to one of these lists the
  delivery reports served, by the position of the produce call in the trace.

  The log lines the code prints with a stable marker are part of the state too (\<open>markers\<close>), since
  they are what the program reports.
\<close>

section \<open>Messages\<close>

record message =
  m_topic :: string
  m_partition :: int
  m_offset :: int
  m_key :: "bytes option"
  m_value :: "wire option"
  m_headers :: "(string \<times> bytes option) list"
  m_timestamp :: "int option" \<comment> \<open>milliseconds; \<open>None\<close> when the accessor fails\<close>

datatype polled =
    NoMessage
  | PartitionEOF
  | PollError string bool \<comment> \<open>the error and whether it is fatal\<close>
  | Polled message

section \<open>Calls\<close>

text \<open>Who registered the delivery callback of a produce call.\<close>

datatype sender = ByStore | ByRouter | NoCallback

type_synonym topic_partition = "string \<times> int"

datatype kcall =
    Produce sender string "bytes option" "wire option" "(string \<times> string) list"
  | ProducerFlush
  | ProducerPoll
  | CommitOffset string int int
  | Seek string int int
  | QueryAssignment
  | QueryCommitted "topic_partition list"
  | InitTransactions
  | BeginTransaction
  | SendOffsets "(topic_partition \<times> int) list"
  | CommitTransaction
  | AbortTransaction
  | Subscribe "string list"
  | CloseConsumer
  | PausePartition string int
  | ResumePartition string int
  | ReaderListTopics string
  | ReaderWatermarks string int
  | ReaderAssign string int int
  | ReaderPoll
  | ReaderClose

type_synonym history = "(kcall \<times> exn option) list"

text \<open>A delivery report: an error, or the partition and offset of the acknowledged record.\<close>

type_synonym delivery = "string + int \<times> int"

datatype topic_info = TopicInfoError string | TopicPartitions "int list"

record kafka =
  k_raises :: "history \<Rightarrow> kcall \<Rightarrow> exn option"
  k_remaining :: "history \<Rightarrow> int"
  k_reports :: "history \<Rightarrow> (nat \<times> delivery) list"
  k_assignment :: "history \<Rightarrow> topic_partition list"
  k_committed :: "history \<Rightarrow> (topic_partition \<times> int) list"
  k_metadata :: "history \<Rightarrow> topic_info option"
  k_watermarks :: "history \<Rightarrow> int \<times> int"
  k_reader_poll :: "history \<Rightarrow> polled"
  k_now :: "history \<Rightarrow> datetime" \<comment> \<open>\<^verbatim>\<open>utc_now()\<close>\<close>
  k_monotonic :: "history \<Rightarrow> rat" \<comment> \<open>\<^verbatim>\<open>time.monotonic()\<close>\<close>

section \<open>Markers\<close>

datatype marker =
    RETRY_SCHEDULED string int
  | RETRY_EXHAUSTED string
  | POISON_MESSAGE string
  | DLQ_PUBLISHED string
  | FAILURE_PUBLISH_FAILED string
  | VIOLATION string
  | DUPLICATE_ABSORBED string int int
  | TOMBSTONE string bool
  | COMMIT_REJECTED int int
  | TRANSACTION_ABORTED "int list" int
  | TRANSACTION_COMMIT_FAILED
  | STORE_DISCARDED int
  | RESTORED int int int int int
  | CHANGELOG_DELIVERY_FAILED
  | CRASH_LEVER string int
  | RETRY_RELEASED string int
  | REBALANCE string "int list" "int list"
  | PRODUCER_FENCED
  | STATE_STORE_UNAVAILABLE
  | HandlerRan string string
  | LogLine string

text \<open>What every consumer process has: the calls made, the markers logged, and the changelog
  positions (\<^verbatim>\<open>LocalStateStore._position\<close>), which live here because delivery callbacks advance
  them from inside any flush or poll of the shared producer.\<close>

record client =
  trace :: history
  markers :: "marker list"
  position :: "int \<rightharpoonup> int"

section \<open>The calls\<close>

text \<open>A call that returns nothing: recorded with what it raised.\<close>

definition call :: "kafka \<Rightarrow> kcall \<Rightarrow> ('x client_scheme, unit) comp" where
  "call K k s =
     (case k_raises K (trace s) k of
        None \<Rightarrow> (Ok (), s\<lparr>trace := trace s @ [(k, None)]\<rparr>)
      | Some e \<Rightarrow> (Raise e, s\<lparr>trace := trace s @ [(k, Some e)]\<rparr>))"

text \<open>A call that returns a value; the value may depend on this call having been made.\<close>

definition ask :: "kafka \<Rightarrow> kcall \<Rightarrow> (history \<Rightarrow> 'a) \<Rightarrow> ('x client_scheme, 'a) comp" where
  "ask K k answer = bindC (call K k) (\<lambda>_. gets (\<lambda>s. answer (trace s)))"

definition mark :: "marker \<Rightarrow> ('x client_scheme, unit) comp" where
  "mark m = modify (\<lambda>s. s\<lparr>markers := markers s @ [m]\<rparr>)"

text \<open>The changelog callback \<^verbatim>\<open>on_delivery\<close> of \<^verbatim>\<open>LocalStateStore._publish\<close>, for each
  report served whose record the store produced.\<close>

definition store_on_delivery :: "delivery \<Rightarrow> 'x client_scheme \<Rightarrow> 'x client_scheme" where
  "store_on_delivery d s =
     (case d of
        Inl err \<Rightarrow> s\<lparr>markers := markers s @ [CHANGELOG_DELIVERY_FAILED]\<rparr>
      | Inr (p, off) \<Rightarrow> s\<lparr>position := (position s)(p \<mapsto>
            max (case position s p of None \<Rightarrow> 0 | Some x \<Rightarrow> x) (off + 1))\<rparr>)"

fun produced_by_store :: "kcall \<Rightarrow> bool" where
  "produced_by_store (Produce ByStore _ _ _ _) = True"
| "produced_by_store _ = False"

definition serve_report :: "nat \<times> delivery \<Rightarrow> 'x client_scheme \<Rightarrow> 'x client_scheme" where
  "serve_report r s =
     (if fst r < length (trace s) \<and> produced_by_store (fst (trace s ! fst r))
      then store_on_delivery (snd r) s else s)"

definition serve_reports :: "(nat \<times> delivery) list \<Rightarrow> ('x client_scheme, unit) comp" where
  "serve_reports rs = modify (fold serve_report rs)"

text \<open>\<^verbatim>\<open>producer.flush(t)\<close> and \<^verbatim>\<open>producer.poll(0)\<close>: serve the reports that arrived; a flush
  also says how many records are still undelivered.\<close>

definition producer_flush :: "kafka \<Rightarrow> ('x client_scheme, int \<times> (nat \<times> delivery) list) comp" where
  "producer_flush K =
     bindC (ask K ProducerFlush (\<lambda>h. (k_remaining K h, k_reports K h)))
       (\<lambda>(n, rs). thenC (serve_reports rs) (ret (n, rs)))"

definition producer_poll :: "kafka \<Rightarrow> ('x client_scheme, unit) comp" where
  "producer_poll K = bindC (ask K ProducerPoll (k_reports K)) serve_reports"

text \<open>The client raises only its own two exception types, and never from \<^verbatim>\<open>flush\<close> or
  \<^verbatim>\<open>poll\<close>.\<close>

definition kafka_ok :: "kafka \<Rightarrow> bool" where
  "kafka_ok K \<longleftrightarrow>
     (\<forall>h k e. k_raises K h k = Some e \<longrightarrow>
        (\<exists>n t. e = KafkaException n t) \<or> (\<exists>t. e = BufferError t)) \<and>
     (\<forall>h. k_raises K h ProducerFlush = None \<and> k_raises K h ProducerPoll = None)"

section \<open>Lemmas\<close>

definition extends :: "'x client_scheme \<Rightarrow> 'x client_scheme \<Rightarrow> bool" where
  "extends s t \<longleftrightarrow> prefix (trace s) (trace t) \<and> prefix (markers s) (markers t)"

lemma extends_refl [simp, intro]: "extends s s"
  by (simp add: extends_def)

lemma extends_trans: "extends s t \<Longrightarrow> extends t u \<Longrightarrow> extends s u"
  by (auto simp: extends_def)

lemma reflp_extends [simp]: "reflp extends"
  by (simp add: reflp_def)

lemma transp_extends [simp]: "transp extends"
  by (auto simp: transp_def intro: extends_trans)

lemma call_cases:
  obtains (returned) "k_raises K (trace s) k = None"
      and "call K k s = (Ok (), s\<lparr>trace := trace s @ [(k, None)]\<rparr>)"
  | (raised) e where "k_raises K (trace s) k = Some e"
      and "call K k s = (Raise e, s\<lparr>trace := trace s @ [(k, Some e)]\<rparr>)"
  by (cases "k_raises K (trace s) k") (auto simp: call_def)

lemma mark_simp [simp]: "mark m s = (Ok (), s\<lparr>markers := markers s @ [m]\<rparr>)"
  by (simp add: mark_def modify_def)

lemma keeps_extends_call [keeps_rules]: "keeps extends (call K k)"
  by (auto simp: keeps_def call_def extends_def split: option.splits)

lemma keeps_extends_mark [keeps_rules]: "keeps extends (mark m)"
  by (auto simp: keeps_def extends_def)

lemma keeps_extends_ask [keeps_rules]: "keeps extends (ask K k f)"
  unfolding ask_def by (intro keeps_rules) simp_all

text \<open>Serving reports makes no call, and only logs delivery failures and moves positions.\<close>

lemma serve_report_frame:
  obtains n pos where "serve_report r s =
     s\<lparr>markers := markers s @ replicate n CHANGELOG_DELIVERY_FAILED, position := pos\<rparr>"
proof -
  have "\<exists>n pos. store_on_delivery d s =
     s\<lparr>markers := markers s @ replicate n CHANGELOG_DELIVERY_FAILED, position := pos\<rparr>" for d
  proof (cases d)
    case (Inl e)
    then show ?thesis by (intro exI [of _ 1] exI [of _ "position s"]) (simp add: store_on_delivery_def)
  next
    case (Inr x)
    then show ?thesis
      by (cases x) (rule exI [of _ 0], auto simp: store_on_delivery_def)
  qed
  moreover have "s = s\<lparr>markers := markers s @ replicate 0 CHANGELOG_DELIVERY_FAILED,
      position := position s\<rparr>"
    by simp
  ultimately show ?thesis using that unfolding serve_report_def by metis
qed

lemma fold_serve_report_frame:
  "\<exists>n pos. fold serve_report rs s =
     s\<lparr>markers := markers s @ replicate n CHANGELOG_DELIVERY_FAILED, position := pos\<rparr>"
proof (induction rs arbitrary: s)
  case Nil
  have "s = s\<lparr>markers := markers s @ replicate 0 CHANGELOG_DELIVERY_FAILED, position := position s\<rparr>"
    by simp
  then show ?case unfolding fold_Nil id_apply by blast
next
  case (Cons r rs)
  obtain n pos where r: "serve_report r s =
      s\<lparr>markers := markers s @ replicate n CHANGELOG_DELIVERY_FAILED, position := pos\<rparr>"
    by (rule serve_report_frame)
  obtain n' pos' where "fold serve_report rs (serve_report r s) =
      s\<lparr>markers := (markers s @ replicate n CHANGELOG_DELIVERY_FAILED)
         @ replicate n' CHANGELOG_DELIVERY_FAILED, position := pos'\<rparr>"
    using Cons.IH [of "serve_report r s"] by (auto simp: r)
  then show ?case
    by (intro exI [of _ "n + n'"] exI [of _ pos']) (simp add: replicate_add)
qed

lemma serve_reports_frame:
  obtains n pos where "serve_reports rs s =
     (Ok (), s\<lparr>markers := markers s @ replicate n CHANGELOG_DELIVERY_FAILED, position := pos\<rparr>)"
  using fold_serve_report_frame [of rs s] by (auto simp: serve_reports_def modify_def)

lemma keeps_extends_serve [keeps_rules]: "keeps extends (serve_reports rs)"
proof (rule keepsI)
  fix s :: "'a client_scheme"
  obtain n pos where "serve_reports rs s =
      (Ok (), s\<lparr>markers := markers s @ replicate n CHANGELOG_DELIVERY_FAILED, position := pos\<rparr>)"
    by (rule serve_reports_frame)
  then show "extends s (snd (serve_reports rs s))" by (simp add: extends_def)
qed

lemma keeps_extends_flush [keeps_rules]: "keeps extends (producer_flush K)"
  unfolding producer_flush_def
  by (intro keeps_rules) (auto split: prod.splits intro!: keeps_rules)

lemma keeps_extends_poll [keeps_rules]: "keeps extends (producer_poll K)"
  unfolding producer_poll_def by (intro keeps_rules) simp_all

lemma kafka_okD:
  assumes "kafka_ok K"
  shows "k_raises K h ProducerFlush = None" "k_raises K h ProducerPoll = None"
    "k_raises K h k = Some e \<Longrightarrow> (\<exists>n t. e = KafkaException n t) \<or> (\<exists>t. e = BufferError t)"
  using assms by (auto simp: kafka_ok_def)

text \<open>A flush or poll of a client that never raises from it: one more call, and callbacks.\<close>

lemma producer_flush_run:
  assumes "k_raises K (trace s) ProducerFlush = None"
  defines "h \<equiv> trace s @ [(ProducerFlush, None)]"
  obtains n pos where "producer_flush K s =
     (Ok (k_remaining K h, k_reports K h),
      s\<lparr>trace := h, markers := markers s @ replicate n CHANGELOG_DELIVERY_FAILED, position := pos\<rparr>)"
proof -
  obtain n pos where "serve_reports (k_reports K h) (s\<lparr>trace := h\<rparr>) =
      (Ok (), s\<lparr>trace := h, markers := markers s @ replicate n CHANGELOG_DELIVERY_FAILED,
        position := pos\<rparr>)"
    by (rule serve_reports_frame [of "k_reports K h" "s\<lparr>trace := h\<rparr>"]) simp
  then show ?thesis
    using assms by (intro that)
      (simp add: producer_flush_def ask_def bindC_def call_def gets_def ret_def)
qed

lemma producer_poll_run:
  assumes "k_raises K (trace s) ProducerPoll = None"
  defines "h \<equiv> trace s @ [(ProducerPoll, None)]"
  obtains n pos where "producer_poll K s =
     (Ok (),
      s\<lparr>trace := h, markers := markers s @ replicate n CHANGELOG_DELIVERY_FAILED, position := pos\<rparr>)"
proof -
  obtain n pos where "serve_reports (k_reports K h) (s\<lparr>trace := h\<rparr>) =
      (Ok (), s\<lparr>trace := h, markers := markers s @ replicate n CHANGELOG_DELIVERY_FAILED,
        position := pos\<rparr>)"
    by (rule serve_reports_frame [of "k_reports K h" "s\<lparr>trace := h\<rparr>"]) simp
  then show ?thesis
    using assms by (intro that)
      (simp add: producer_poll_def ask_def bindC_def call_def gets_def ret_def)
qed

end
