(* ===== verification/State_Store.thy ===== *)
theory State_Store
  imports Kafka_Client Events
begin

text \<open>
  The first half of \<^verbatim>\<open>src/order_service/consumer/state.py\<close>: the fold, the \<^verbatim>\<open>StateStore\<close> protocol
  and the in-memory backend. The protocol is a record of operations over the process state
  (\<open>store_ops\<close>), handed to the consume loop the way the code injects a store object. Its contract,
  as far as the fold of one order is concerned, is the locale \<open>fold_store\<close>; both backends are shown
  to meet it.
\<close>

section \<open>Folds\<close>

record order_fold =
  f_order_id :: string
  f_last_sequence :: int
  f_state :: "order_state option"

record save_outcome =
  so_applied :: bool
  so_handled_count :: int

text \<open>\<^verbatim>\<open>OrderFold(order_id=...)\<close> with the dataclass defaults.\<close>

definition new_fold :: "string \<Rightarrow> order_fold" where
  "new_fold oid = \<lparr>f_order_id = oid, f_last_sequence = 0, f_state = None\<rparr>"

section \<open>The protocol\<close>

record 's store_ops =
  st_load :: "int \<Rightarrow> string \<Rightarrow> ('s, order_fold option) comp"
  st_save :: "int \<Rightarrow> string \<Rightarrow> order_fold \<Rightarrow> string \<Rightarrow> ('s, save_outcome) comp"
  st_delete :: "int \<Rightarrow> string \<Rightarrow> ('s, bool) comp"
  st_restore :: "int list \<Rightarrow> ('s, unit) comp"
  st_flush :: "('s, unit) comp"
  st_forget :: "int list \<Rightarrow> ('s, unit) comp"
  st_discard :: "int list \<Rightarrow> ('s, unit) comp"
  st_held :: "'s \<Rightarrow> int list"
  st_close :: "('s, unit) comp"

section \<open>The contract\<close>

text \<open>\<open>fold_at\<close> is what a store knows of an order; \<open>ok\<close> is the backend's invariant. A load answers
  with it and changes nothing of it; a save that advanced the fold leaves exactly the saved one, a
  save that did not leaves the old one; a delete leaves nothing; and no operation on one order,
  whether it returns or raises, changes what is known of another.\<close>

locale fold_store =
  fixes load :: "int \<Rightarrow> string \<Rightarrow> ('s, order_fold option) comp"
    and save :: "int \<Rightarrow> string \<Rightarrow> order_fold \<Rightarrow> string \<Rightarrow> ('s, save_outcome) comp"
    and delete :: "int \<Rightarrow> string \<Rightarrow> ('s, bool) comp"
    and fold_at :: "'s \<Rightarrow> int \<Rightarrow> string \<Rightarrow> order_fold option"
    and ok :: "'s \<Rightarrow> bool"
  assumes load_returns: "ok s \<Longrightarrow> load p oid s = (Ok g, t) \<Longrightarrow> g = fold_at s p oid"
    and load_keeps: "ok s \<Longrightarrow> load p oid s = (out1, t) \<Longrightarrow> ok t \<and> fold_at t = fold_at s"
    and save_applied: "ok s \<Longrightarrow> f_order_id f = oid \<Longrightarrow> save p oid f eid s = (Ok r, t) \<Longrightarrow>
        so_applied r \<Longrightarrow> fold_at t p oid = Some f"
    and save_absorbed: "ok s \<Longrightarrow> f_order_id f = oid \<Longrightarrow> save p oid f eid s = (Ok r, t) \<Longrightarrow>
        \<not> so_applied r \<Longrightarrow> fold_at s p oid \<noteq> None \<Longrightarrow> fold_at t p oid = fold_at s p oid"
    and save_ok: "ok s \<Longrightarrow> f_order_id f = oid \<Longrightarrow> save p oid f eid s = (out2, t) \<Longrightarrow> ok t"
    and save_other: "ok s \<Longrightarrow> f_order_id f = oid \<Longrightarrow> save p oid f eid s = (out2, t) \<Longrightarrow> (p', oid') \<noteq> (p, oid) \<Longrightarrow>
        fold_at t p' oid' = fold_at s p' oid'"
    and delete_gone: "ok s \<Longrightarrow> delete p oid s = (Ok b, t) \<Longrightarrow>
        fold_at t p oid = None \<and> (b \<longleftrightarrow> fold_at s p oid \<noteq> None)"
    and delete_ok: "ok s \<Longrightarrow> delete p oid s = (out3, t) \<Longrightarrow> ok t"
    and delete_other: "ok s \<Longrightarrow> delete p oid s = (out3, t) \<Longrightarrow> (p', oid') \<noteq> (p, oid) \<Longrightarrow>
        fold_at t p' oid' = fold_at s p' oid'"
begin

text \<open>A series of writes to the store, as a client makes them.\<close>

fun writes :: "(int \<times> string \<times> (order_fold \<times> string) option) list \<Rightarrow> 's \<Rightarrow> 's" where
  "writes [] s = s"
| "writes ((p, oid, Some (f, eid)) # ws) s = writes ws (snd (save p oid f eid s))"
| "writes ((p, oid, None) # ws) s = writes ws (snd (delete p oid s))"

definition well_keyed :: "(int \<times> string \<times> (order_fold \<times> string) option) list \<Rightarrow> bool" where
  "well_keyed ws \<longleftrightarrow> (\<forall>p oid f eid. (p, oid, Some (f, eid)) \<in> set ws \<longrightarrow> f_order_id f = oid)"

lemma well_keyed_Cons [simp]:
  "well_keyed ((p, oid, w) # ws) \<longleftrightarrow>
     (case w of Some (f, eid) \<Rightarrow> f_order_id f = oid | None \<Rightarrow> True) \<and> well_keyed ws"
  by (auto simp: well_keyed_def split: option.splits prod.splits)

lemma writes_keep:
  assumes "ok s" and "well_keyed ws" and "\<forall>w\<in>set ws. (fst w, fst (snd w)) \<noteq> (p, oid)"
  shows "ok (writes ws s) \<and> fold_at (writes ws s) p oid = fold_at s p oid"
  using assms
proof (induction ws s rule: writes.induct)
  case (1 s)
  then show ?case by simp
next
  case (2 q oid' f eid ws s)
  obtain r t where rt: "save q oid' f eid s = (r, t)" by (cases "save q oid' f eid s")
  with 2 save_ok [OF _ _ rt] save_other [OF _ _ rt, of p oid] show ?case by auto
next
  case (3 q oid' ws s)
  obtain r t where rt: "delete q oid' s = (r, t)" by (cases "delete q oid' s")
  with 3 delete_ok [OF _ rt] delete_other [OF _ rt, of p oid] show ?case by auto
qed

text \<open>What was saved is what is loaded, whatever happened to other orders in between.\<close>

lemma load_after_save:
  assumes s: "ok s" and f: "f_order_id f = oid" and sv: "save p oid f eid s = (Ok r, t)"
    and "so_applied r" and ws: "well_keyed ws" "\<forall>w\<in>set ws. (fst w, fst (snd w)) \<noteq> (p, oid)"
    and ld: "load p oid (writes ws t) = (Ok g, u)"
  shows "g = Some f"
proof -
  have "ok t" using save_ok [OF s f sv] .
  from writes_keep [OF this ws] have "ok (writes ws t)" "fold_at (writes ws t) p oid = Some f"
    using save_applied [OF s f sv] assms(4) by simp_all
  with load_returns [OF _ ld] show ?thesis by simp
qed

lemma load_after_delete:
  assumes s: "ok s" and dl: "delete p oid s = (Ok b, t)"
    and ws: "well_keyed ws" "\<forall>w\<in>set ws. (fst w, fst (snd w)) \<noteq> (p, oid)"
    and ld: "load p oid (writes ws t) = (Ok g, u)"
  shows "g = None"
proof -
  have "ok t" using delete_ok [OF s dl] .
  from writes_keep [OF this ws] have "ok (writes ws t)" "fold_at (writes ws t) p oid = None"
    using delete_gone [OF s dl] by simp_all
  with load_returns [OF _ ld] show ?thesis by simp
qed

end

section \<open>The memory backend\<close>

record mem_state = client +
  mem_folds :: "int \<rightharpoonup> (string \<rightharpoonup> order_fold)"
  mem_handled :: "int \<times> string \<rightharpoonup> int"

definition mem_partition :: "'x mem_state_scheme \<Rightarrow> int \<Rightarrow> string \<rightharpoonup> order_fold" where
  "mem_partition s p = (case mem_folds s p of None \<Rightarrow> Map.empty | Some m \<Rightarrow> m)"

definition mem_load :: "int \<Rightarrow> string \<Rightarrow> ('x mem_state_scheme, order_fold option) comp" where
  "mem_load p oid = gets (\<lambda>s. mem_partition s p oid)"

definition mem_save ::
    "int \<Rightarrow> string \<Rightarrow> order_fold \<Rightarrow> string \<Rightarrow> ('x mem_state_scheme, save_outcome) comp" where
  "mem_save p oid f eid s =
     (let handled = (case mem_handled s (p, oid) of None \<Rightarrow> 0 | Some n \<Rightarrow> n) + 1
      in (Ok \<lparr>so_applied = True, so_handled_count = handled\<rparr>,
          s\<lparr>mem_folds := (mem_folds s)(p \<mapsto> (mem_partition s p)(oid \<mapsto> f)),
            mem_handled := (mem_handled s)((p, oid) \<mapsto> handled)\<rparr>))"

definition mem_delete :: "int \<Rightarrow> string \<Rightarrow> ('x mem_state_scheme, bool) comp" where
  "mem_delete p oid s =
     (Ok (mem_partition s p oid \<noteq> None),
      s\<lparr>mem_folds := (case mem_folds s p of
           None \<Rightarrow> mem_folds s | Some m \<Rightarrow> (mem_folds s)(p \<mapsto> m(oid := None))),
        mem_handled := (mem_handled s)((p, oid) := None)\<rparr>)"

definition mem_restore :: "int list \<Rightarrow> ('x mem_state_scheme, unit) comp" where
  "mem_restore ps = ret ()"

definition mem_flush :: "('x mem_state_scheme, unit) comp" where
  "mem_flush = ret ()"

definition mem_forget :: "int list \<Rightarrow> ('x mem_state_scheme, unit) comp" where
  "mem_forget ps = modify (\<lambda>s.
     s\<lparr>mem_folds := mem_folds s |` (- set ps),
       mem_handled := (\<lambda>(p, oid). if p \<in> set ps then None else mem_handled s (p, oid))\<rparr>)"

definition mem_discard :: "int list \<Rightarrow> ('x mem_state_scheme, unit) comp" where
  "mem_discard ps = mem_forget ps"

text \<open>\<^verbatim>\<open>sorted(self._folds)\<close>, from the partition numbers the process can hold.\<close>

definition mem_held :: "int list \<Rightarrow> 'x mem_state_scheme \<Rightarrow> int list" where
  "mem_held universe s = filter (\<lambda>p. mem_folds s p \<noteq> None) (sort (remdups universe))"

definition memory_ops :: "int list \<Rightarrow> 'x mem_state_scheme store_ops" where
  "memory_ops universe =
     \<lparr>st_load = mem_load, st_save = mem_save, st_delete = mem_delete, st_restore = mem_restore,
      st_flush = mem_flush, st_forget = mem_forget, st_discard = mem_discard,
      st_held = mem_held universe, st_close = ret ()\<rparr>"

section \<open>Lemmas\<close>

text \<open>Updates of the process state are kept in the order of its declaration.\<close>

lemma mem_update_order [simp]:
  "trace_update f (mem_folds_update g s) = mem_folds_update g (trace_update f s)"
  "trace_update f (mem_handled_update h s) = mem_handled_update h (trace_update f s)"
  "markers_update i (mem_folds_update g s) = mem_folds_update g (markers_update i s)"
  "markers_update i (mem_handled_update h s) = mem_handled_update h (markers_update i s)"
  "position_update j (mem_folds_update g s) = mem_folds_update g (position_update j s)"
  "position_update j (mem_handled_update h s) = mem_handled_update h (position_update j s)"
  by simp_all

lemmas mem_defs = mem_load_def mem_save_def mem_delete_def mem_restore_def mem_flush_def
  mem_forget_def mem_discard_def mem_partition_def

interpretation mem: fold_store mem_load mem_save mem_delete mem_partition "\<lambda>s. True"
  by unfold_locales
    (auto simp: mem_defs gets_def Let_def fun_eq_iff split: option.splits if_splits)

end
