(* ===== verification/Local_Store.thy ===== *)
theory Local_Store
  imports State_Store
begin

text \<open>
  The second half of \<^verbatim>\<open>src/order_service/consumer/state.py\<close>: \<^verbatim>\<open>LocalStateStore\<close>, one embedded
  store per owned partition, every write repeated on a compacted changelog topic from which a
  partition is rebuilt.

  The embedded engine (\<^verbatim>\<open>rocksdict\<close>) and the file system calls around it are the parameter
  \<open>engine\<close>: what each operation raises and what it does to the disk, an abstract value.
  \<open>rd_contents\<close> says what a store directory holds and occurs only in statements; \<open>engine_ok\<close> names
  the behaviour relied on (a dictionary per directory: a read returns what is held, a write changes
  one key of one directory). The replay loop of \<^verbatim>\<open>_drain\<close> runs on fuel, one unit per poll, since
  a broker may go on answering with end-of-partition events; the theorems say how much is enough.
\<close>

section \<open>The engine\<close>

record 'd engine =
  rd_open :: "'d \<Rightarrow> string \<Rightarrow> exn option \<times> 'd"
  rd_close :: "'d \<Rightarrow> string \<Rightarrow> 'd"
  rd_get :: "'d \<Rightarrow> string \<Rightarrow> string \<Rightarrow> exn + wire option"
  rd_put :: "'d \<Rightarrow> string \<Rightarrow> string \<Rightarrow> wire \<Rightarrow> exn option \<times> 'd"
  rd_del :: "'d \<Rightarrow> string \<Rightarrow> string \<Rightarrow> exn option \<times> 'd"
  rd_destroy :: "'d \<Rightarrow> string \<Rightarrow> exn option \<times> 'd"
  fs_exists :: "'d \<Rightarrow> string \<Rightarrow> bool"
  fs_rmtree :: "'d \<Rightarrow> string \<Rightarrow> exn option \<times> 'd"
  fs_read :: "'d \<Rightarrow> string \<Rightarrow> string option"
  fs_write :: "'d \<Rightarrow> string \<Rightarrow> string \<Rightarrow> exn option \<times> 'd"
  fs_unlink :: "'d \<Rightarrow> string \<Rightarrow> exn option \<times> 'd"
  rd_contents :: "'d \<Rightarrow> string \<Rightarrow> string \<rightharpoonup> wire"

record 'd local_state = mem_state +
  handles :: "int set" \<comment> \<open>\<^verbatim>\<open>_stores\<close>: the partitions with an open store\<close>
  disk :: 'd

text \<open>An engine or file system operation whose exception is wrapped.\<close>

definition on_disk ::
    "('d \<Rightarrow> exn option \<times> 'd) \<Rightarrow> (exn \<Rightarrow> string) \<Rightarrow> (('d, 'x) local_state_scheme, unit) comp" where
  "on_disk f wrap s =
     (case f (disk s) of
        (None, d) \<Rightarrow> (Ok (), s\<lparr>disk := d\<rparr>)
      | (Some e, d) \<Rightarrow> (Raise (StateStoreUnavailable (wrap e)), s\<lparr>disk := d\<rparr>))"

section \<open>Records\<close>

record stored =
  rec_fold :: order_fold
  rec_event_id :: json
  rec_handled :: int

definition encode_record :: "stored \<Rightarrow> wire" where
  "encode_record r =
     json_dumps (JObj
       [(''last_sequence'', JInt (f_last_sequence (rec_fold r))),
        (''state'', (case f_state (rec_fold r) of
            None \<Rightarrow> JNull | Some x \<Rightarrow> JStr (order_state_value x))),
        (''last_event_id'', rec_event_id r),
        (''handled_count'', JInt (rec_handled r))])"

text \<open>\<^verbatim>\<open>int(v)\<close> of a decoded JSON value; \<open>None\<close> is the \<^verbatim>\<open>TypeError\<close> or \<^verbatim>\<open>ValueError\<close>.\<close>

fun json_int :: "json \<Rightarrow> int option" where
  "json_int (JInt n) = Some n"
| "json_int (JBool b) = Some (if b then 1 else 0)"
| "json_int (JReal x) = Some (if 0 \<le> x then \<lfloor>x\<rfloor> else \<lceil>x\<rceil>)"
| "json_int (JStr s) = py_int s"
| "json_int _ = None"

fun json_state :: "json \<Rightarrow> order_state option option" where
  "json_state JNull = Some None"
| "json_state (JStr s) = map_option Some (order_state_of s)"
| "json_state _ = None"

definition decode_record :: "string \<Rightarrow> wire \<Rightarrow> exn + stored" where
  "decode_record oid raw =
     (case do {
        j \<leftarrow> json_loads raw;
        kvs \<leftarrow> json_fields j;
        sv \<leftarrow> map_of kvs ''state'';
        n \<leftarrow> map_of kvs ''last_sequence'' \<bind> json_int;
        st \<leftarrow> json_state sv;
        eid \<leftarrow> map_of kvs ''last_event_id'';
        h \<leftarrow> map_of kvs ''handled_count'' \<bind> json_int;
        Some \<lparr>rec_fold = \<lparr>f_order_id = oid, f_last_sequence = n, f_state = st\<rparr>,
              rec_event_id = eid, rec_handled = h\<rparr> }
      of None \<Rightarrow> Inl (StateStoreUnavailable (''undecodable stored fold for '' @ oid))
       | Some r \<Rightarrow> Inr r)"

section \<open>Paths\<close>

definition path_for :: "settings \<Rightarrow> string \<Rightarrow> int \<Rightarrow> string" where
  "path_for c gid p = state_dir c @ ''/'' @ gid @ ''/'' @ py_str p"

definition checkpoint_path :: "settings \<Rightarrow> string \<Rightarrow> int \<Rightarrow> string" where
  "checkpoint_path c gid p = state_dir c @ ''/'' @ gid @ ''/'' @ py_str p @ ''.ckpt''"

section \<open>Reading and writing\<close>

definition store_for ::
    "'d engine \<Rightarrow> settings \<Rightarrow> string \<Rightarrow> int \<Rightarrow> (('d, 'x) local_state_scheme, unit) comp" where
  "store_for E c gid p =
     bindC (gets (\<lambda>s. p \<in> handles s)) (\<lambda>held.
     if held then ret ()
     else thenC (on_disk (\<lambda>d. rd_open E d (path_for c gid p))
                   (\<lambda>e. ''state backend '' @ apostrophe @ ''local'' @ apostrophe @ '' cannot open '' @
                        path_for c gid p @ '': '' @ exn_text e))
            (modify (\<lambda>s. s\<lparr>handles := insert p (handles s)\<rparr>)))"

definition local_get ::
    "'d engine \<Rightarrow> settings \<Rightarrow> string \<Rightarrow> int \<Rightarrow> string \<Rightarrow> string \<Rightarrow>
     (('d, 'x) local_state_scheme, wire option) comp" where
  "local_get E c gid p oid what =
     bindC (gets (\<lambda>s. rd_get E (disk s) (path_for c gid p) oid)) (\<lambda>r.
     case r of
       Inl e \<Rightarrow> raise (StateStoreUnavailable (what @ oid @ '': '' @ exn_text e))
     | Inr v \<Rightarrow> ret v)"

definition local_read ::
    "'d engine \<Rightarrow> settings \<Rightarrow> string \<Rightarrow> int \<Rightarrow> string \<Rightarrow>
     (('d, 'x) local_state_scheme, stored option) comp" where
  "local_read E c gid p oid =
     thenC (store_for E c gid p)
     (bindC (local_get E c gid p oid ''reading '') (\<lambda>raw.
      case raw of
        None \<Rightarrow> ret None
      | Some w \<Rightarrow> (case decode_record oid w of Inl e \<Rightarrow> raise e | Inr r \<Rightarrow> ret (Some r))))"

definition enqueue_error :: "string \<Rightarrow> string \<Rightarrow> exn" where
  "enqueue_error oid t =
     StateStoreUnavailable (''changelog for '' @ oid @ '' could not be enqueued: '' @ t)"

definition local_publish ::
    "kafka \<Rightarrow> settings \<Rightarrow> string \<Rightarrow> string \<Rightarrow> wire option \<Rightarrow> ('x client_scheme, unit) comp" where
  "local_publish K c gid oid v =
     (let produce = call K (Produce ByStore (changelog_topic_for c gid) (Some oid) v [])
      in thenC (tryC produce
           (\<lambda>e. case e of
              BufferError _ \<Rightarrow>
                thenC (producer_flush K)
                  (tryC produce
                     (\<lambda>e'. case e' of
                        BufferError t \<Rightarrow> raise (enqueue_error oid t)
                      | KafkaException n t \<Rightarrow> raise (enqueue_error oid t)
                      | _ \<Rightarrow> raise e'))
            | KafkaException n t \<Rightarrow> raise (enqueue_error oid t)
            | _ \<Rightarrow> raise e))
         (producer_poll K))"

definition local_write ::
    "kafka \<Rightarrow> 'd engine \<Rightarrow> settings \<Rightarrow> string \<Rightarrow> int \<Rightarrow> string \<Rightarrow> wire \<Rightarrow>
     (('d, 'x) local_state_scheme, unit) comp" where
  "local_write K E c gid p oid v =
     thenC (store_for E c gid p)
     (thenC (on_disk (\<lambda>d. rd_put E d (path_for c gid p) oid v)
              (\<lambda>e. ''writing '' @ oid @ '': '' @ exn_text e))
     (local_publish K c gid oid (Some v)))"

definition local_load ::
    "'d engine \<Rightarrow> settings \<Rightarrow> string \<Rightarrow> int \<Rightarrow> string \<Rightarrow>
     (('d, 'x) local_state_scheme, order_fold option) comp" where
  "local_load E c gid p oid =
     bindC (local_read E c gid p oid) (\<lambda>r. ret (map_option rec_fold r))"

text \<open>The row a save writes, from the row it read: the fold advances only past a higher sequence
  number, the delivery count always.\<close>

definition next_record :: "stored option \<Rightarrow> order_fold \<Rightarrow> string \<Rightarrow> save_outcome \<times> stored" where
  "next_record previous f eid =
     (let previous_sequence = (case previous of None \<Rightarrow> 0 | Some r \<Rightarrow> f_last_sequence (rec_fold r));
          handled = (case previous of None \<Rightarrow> 1 | Some r \<Rightarrow> rec_handled r + 1);
          applied = (f_last_sequence f > previous_sequence);
          new = \<lparr>rec_fold = f, rec_event_id = JStr eid, rec_handled = handled\<rparr>
      in (\<lparr>so_applied = applied, so_handled_count = handled\<rparr>,
          if applied then new
          else (case previous of None \<Rightarrow> new | Some r \<Rightarrow> r\<lparr>rec_handled := handled\<rparr>)))"

definition local_save ::
    "kafka \<Rightarrow> 'd engine \<Rightarrow> settings \<Rightarrow> string \<Rightarrow> int \<Rightarrow> string \<Rightarrow> order_fold \<Rightarrow> string \<Rightarrow>
     (('d, 'x) local_state_scheme, save_outcome) comp" where
  "local_save K E c gid p oid f eid =
     bindC (local_read E c gid p oid) (\<lambda>previous.
     let (outcome, r) = next_record previous f eid in
     thenC (local_write K E c gid p oid (encode_record r)) (ret outcome))"

definition local_delete ::
    "kafka \<Rightarrow> 'd engine \<Rightarrow> settings \<Rightarrow> string \<Rightarrow> int \<Rightarrow> string \<Rightarrow>
     (('d, 'x) local_state_scheme, bool) comp" where
  "local_delete K E c gid p oid =
     thenC (store_for E c gid p)
     (bindC (local_get E c gid p oid ''deleting '') (\<lambda>raw.
      thenC (if raw \<noteq> None
             then on_disk (\<lambda>d. rd_del E d (path_for c gid p) oid)
                    (\<lambda>e. ''deleting '' @ oid @ '': '' @ exn_text e)
             else ret ())
      (thenC (local_publish K c gid oid None) (ret (raw \<noteq> None)))))"

definition local_flush :: "kafka \<Rightarrow> ('x client_scheme, unit) comp" where
  "local_flush K =
     bindC (producer_flush K) (\<lambda>(remaining, _).
     if remaining \<noteq> 0
     then raise (StateStoreUnavailable (py_str remaining @
       '' changelog record(s) unacknowledged after 30s '' @ em_dash @
       '' refusing to commit past state that cannot be rebuilt''))
     else ret ())"

section \<open>Restoring a partition from its changelog\<close>

text \<open>\<^verbatim>\<open>_key_of\<close> of a changelog record; an undecodable key is an exception nothing here catches.\<close>

definition changelog_key :: "message \<Rightarrow> exn + string" where
  "changelog_key m =
     (case m_key m of
        None \<Rightarrow> Inl (StateStoreUnavailable (''null key on '' @ m_topic m @ ''-'' @
          py_str (m_partition m) @ '' at offset '' @ py_str (m_offset m) @ '' '' @ em_dash @
          '' is that topic compacted?''))
      | Some k \<Rightarrow> (case utf8_decode k of
            None \<Rightarrow> Inl (OtherError ''UnicodeDecodeError'' ''invalid start byte'')
          | Some oid \<Rightarrow> Inr oid))"

definition restoring :: "settings \<Rightarrow> string \<Rightarrow> int \<Rightarrow> string" where
  "restoring c gid p = ''restoring '' @ changelog_topic_for c gid @ ''-'' @ py_str p"

text \<open>One replayed record applied to the store; returns the keys left live.\<close>

definition apply_changelog ::
    "'d engine \<Rightarrow> settings \<Rightarrow> string \<Rightarrow> int \<Rightarrow> message \<Rightarrow> string \<Rightarrow> string list \<Rightarrow>
     (('d, 'x) local_state_scheme, string list) comp" where
  "apply_changelog E c gid p m oid live =
     (let wrap = (\<lambda>e. restoring c gid p @ '' at offset '' @ py_str (m_offset m) @ '': '' @ exn_text e)
      in case m_value m of
        None \<Rightarrow>
          bindC (gets (\<lambda>s. rd_get E (disk s) (path_for c gid p) oid)) (\<lambda>r.
          case r of
            Inl e \<Rightarrow> raise (StateStoreUnavailable (wrap e))
          | Inr v \<Rightarrow>
              thenC (if v \<noteq> None then on_disk (\<lambda>d. rd_del E d (path_for c gid p) oid) wrap else ret ())
                (ret (removeAll oid live)))
      | Some w \<Rightarrow>
          thenC (on_disk (\<lambda>d. rd_put E d (path_for c gid p) oid w) wrap)
            (ret (List.insert oid live)))"

text \<open>The loop of \<^verbatim>\<open>_drain\<close>: the first argument after the parameters is the fuel.\<close>

fun drain ::
    "kafka \<Rightarrow> 'd engine \<Rightarrow> settings \<Rightarrow> string \<Rightarrow> int \<Rightarrow> int \<Rightarrow> nat \<Rightarrow> int \<Rightarrow> int \<Rightarrow> string list \<Rightarrow>
     (('d, 'x) local_state_scheme, int \<times> int) comp" where
  "drain K E c gid p high fuel next_offset records live =
     (if next_offset \<ge> high then ret (records, int (length live))
      else (case fuel of
        0 \<Rightarrow> raise (OtherError ''OutOfFuel'' '''')
      | Suc n \<Rightarrow>
          bindC (ask K ReaderPoll (k_reader_poll K)) (\<lambda>r.
          case r of
            NoMessage \<Rightarrow>
              raise (StateStoreUnavailable (restoring c gid p @ '' stalled at offset '' @
                py_str next_offset @ '' of '' @ py_str high))
          | PartitionEOF \<Rightarrow> drain K E c gid p high n next_offset records live
          | PollError t _ \<Rightarrow> raise (StateStoreUnavailable (restoring c gid p @ '': '' @ t))
          | Polled m \<Rightarrow>
              (case changelog_key m of
                 Inl e \<Rightarrow> raise e
               | Inr oid \<Rightarrow>
                   bindC (apply_changelog E c gid p m oid live) (\<lambda>live'.
                   drain K E c gid p high n (m_offset m + 1) (records + 1) live')))))"

declare drain.simps [simp del]

definition local_destroy ::
    "'d engine \<Rightarrow> settings \<Rightarrow> string \<Rightarrow> int \<Rightarrow> (('d, 'x) local_state_scheme, unit) comp" where
  "local_destroy E c gid p =
     thenC (modify (\<lambda>s. if p \<in> handles s
              then s\<lparr>handles := handles s - {p}, disk := rd_close E (disk s) (path_for c gid p)\<rparr>
              else s))
     (bindC (gets (\<lambda>s. fs_exists E (disk s) (path_for c gid p))) (\<lambda>ex.
      if \<not> ex then ret ()
      else on_disk (\<lambda>d. rd_destroy E d (path_for c gid p))
             (\<lambda>e. ''cannot reset '' @ path_for c gid p @ '' for a full rebuild: '' @ exn_text e)))"

definition read_checkpoint :: "'d engine \<Rightarrow> settings \<Rightarrow> string \<Rightarrow> 'd \<Rightarrow> int \<Rightarrow> int option" where
  "read_checkpoint E c gid d p =
     (case fs_read E d (checkpoint_path c gid p) of None \<Rightarrow> None | Some t \<Rightarrow> py_int (strip t))"

definition start_offset ::
    "'d engine \<Rightarrow> settings \<Rightarrow> string \<Rightarrow> int \<Rightarrow> int \<Rightarrow> (('d, 'x) local_state_scheme, int) comp" where
  "start_offset E c gid p low =
     bindC (gets (\<lambda>s. if state_rebuild c = CHECKPOINT then read_checkpoint E c gid (disk s) p else None))
       (\<lambda>checkpoint. case checkpoint of
          Some k \<Rightarrow> ret (max k low)
        | None \<Rightarrow> thenC (local_destroy E c gid p) (ret low))"

text \<open>\<^verbatim>\<open>str\<close> of a list of integers.\<close>

fun separate :: "'a \<Rightarrow> 'a list \<Rightarrow> 'a list" where
  "separate sep (x # y # ys) = x # sep # separate sep (y # ys)"
| "separate sep xs = xs"

definition py_int_list :: "int list \<Rightarrow> string" where
  "py_int_list xs = ''['' @ concat (separate '', '' (map py_str xs)) @ '']''"

definition await_metadata ::
    "kafka \<Rightarrow> settings \<Rightarrow> string \<Rightarrow> int \<Rightarrow> ('x client_scheme, unit) comp" where
  "await_metadata K c gid p =
     (let topic = changelog_topic_for c gid in
      bindC (tryC (ask K (ReaderListTopics topic) (k_metadata K))
               (\<lambda>e. case e of
                  KafkaException n t \<Rightarrow>
                    raise (StateStoreUnavailable (''cannot fetch metadata for '' @ topic @ '': '' @ t))
                | _ \<Rightarrow> raise e))
        (\<lambda>info. case info of
           None \<Rightarrow> raise (StateStoreUnavailable (''changelog topic '' @ topic @
             '' is not available (unknown) '' @ em_dash @
             '' auto-creation is off, so run scripts/create_topics.sh''))
         | Some (TopicInfoError t) \<Rightarrow> raise (StateStoreUnavailable (''changelog topic '' @ topic @
             '' is not available ('' @ t @ '') '' @ em_dash @
             '' auto-creation is off, so run scripts/create_topics.sh''))
         | Some (TopicPartitions ps) \<Rightarrow>
             if p \<in> set ps then ret ()
             else raise (StateStoreUnavailable (topic @ '' has no partition '' @ py_str p @ '' (it has '' @
               py_int_list (sort ps) @ '') '' @ em_dash @
               '' the changelog must have the same partition count as the lifecycle topic''))))"

text \<open>The body of the \<^verbatim>\<open>try\<close> in \<^verbatim>\<open>_restore_one\<close>; the reader is closed whatever it does.\<close>

definition restore_body ::
    "kafka \<Rightarrow> 'd engine \<Rightarrow> settings \<Rightarrow> string \<Rightarrow> nat \<Rightarrow> int \<Rightarrow>
     (('d, 'x) local_state_scheme, int \<times> int \<times> int \<times> int) comp" where
  "restore_body K E c gid fuel p =
     (let topic = changelog_topic_for c gid in
      thenC (await_metadata K c gid p)
      (bindC (tryC (ask K (ReaderWatermarks topic p) (k_watermarks K))
                (\<lambda>e. case e of
                   KafkaException n t \<Rightarrow> raise (StateStoreUnavailable (''cannot read the end of '' @
                     topic @ ''-'' @ py_str p @ '': '' @ t))
                 | _ \<Rightarrow> raise e)) (\<lambda>(low, high).
       bindC (start_offset E c gid p low) (\<lambda>start.
       thenC (store_for E c gid p)
       (bindC (if start < high
               then thenC (call K (ReaderAssign topic p start))
                      (thenC (store_for E c gid p) (drain K E c gid p high fuel start 0 []))
               else ret (0, 0))
         (\<lambda>(records, keys). ret (start, high, records, keys)))))))"

definition restore_one ::
    "kafka \<Rightarrow> 'd engine \<Rightarrow> settings \<Rightarrow> string \<Rightarrow> nat \<Rightarrow> int \<Rightarrow>
     (('d, 'x) local_state_scheme, unit) comp" where
  "restore_one K E c gid fuel p =
     bindC (finallyC (restore_body K E c gid fuel p) (call K ReaderClose))
       (\<lambda>(start, high, records, keys).
          thenC (modify (\<lambda>s. s\<lparr>position := (position s)(p \<mapsto> high)\<rparr>))
          (mark (RESTORED p records keys start high)))"

definition local_restore ::
    "kafka \<Rightarrow> 'd engine \<Rightarrow> settings \<Rightarrow> string \<Rightarrow> nat \<Rightarrow> int list \<Rightarrow>
     (('d, 'x) local_state_scheme, unit) comp" where
  "local_restore K E c gid fuel ps = forC (sort (remdups ps)) (restore_one K E c gid fuel)"

section \<open>Releasing partitions\<close>

definition write_checkpoint ::
    "'d engine \<Rightarrow> settings \<Rightarrow> string \<Rightarrow> int \<Rightarrow> (('d, 'x) local_state_scheme, unit) comp" where
  "write_checkpoint E c gid p =
     bindC (gets (\<lambda>s. position s p)) (\<lambda>pos.
     case pos of
       None \<Rightarrow> ret ()
     | Some n \<Rightarrow> modify (\<lambda>s.
         s\<lparr>disk := snd (fs_write E (disk s) (checkpoint_path c gid p) (py_str n @ [char_of (10 :: nat)]))\<rparr>))"

definition local_forget ::
    "kafka \<Rightarrow> 'd engine \<Rightarrow> settings \<Rightarrow> string \<Rightarrow> int list \<Rightarrow> (('d, 'x) local_state_scheme, unit) comp" where
  "local_forget K E c gid ps =
     (if ps = [] then ret ()
      else thenC (producer_flush K)
        (forC (sort (remdups ps)) (\<lambda>p.
           bindC (gets (\<lambda>s. p \<in> handles s)) (\<lambda>held.
           if \<not> held then ret ()
           else thenC (modify (\<lambda>s. s\<lparr>handles := handles s - {p}\<rparr>))
             (thenC (write_checkpoint E c gid p)
             (modify (\<lambda>s. s\<lparr>disk := rd_close E (disk s) (path_for c gid p)\<rparr>)))))))"

definition local_discard ::
    "'d engine \<Rightarrow> settings \<Rightarrow> string \<Rightarrow> int list \<Rightarrow> (('d, 'x) local_state_scheme, unit) comp" where
  "local_discard E c gid ps =
     forC (sort (remdups ps)) (\<lambda>p.
       (let wrap = (\<lambda>e. ''could not discard partition '' @ py_str p @ '' at '' @ path_for c gid p @
              '': '' @ exn_text e) in
        thenC (modify (\<lambda>s. if p \<in> handles s
                then s\<lparr>handles := handles s - {p}, disk := rd_close E (disk s) (path_for c gid p)\<rparr>
                else s))
        (thenC (modify (\<lambda>s. s\<lparr>position := (position s)(p := None)\<rparr>))
        (thenC (on_disk (\<lambda>d. fs_rmtree E d (path_for c gid p)) wrap)
        (thenC (on_disk (\<lambda>d. fs_unlink E d (checkpoint_path c gid p)) wrap)
        (mark (STORE_DISCARDED p)))))))"

definition local_held :: "('d, 'x) local_state_scheme \<Rightarrow> int list" where
  "local_held s = sorted_list_of_set (handles s)"

definition local_close ::
    "kafka \<Rightarrow> 'd engine \<Rightarrow> settings \<Rightarrow> string \<Rightarrow> (('d, 'x) local_state_scheme, unit) comp" where
  "local_close K E c gid = bindC (gets local_held) (local_forget K E c gid)"

definition local_ops ::
    "kafka \<Rightarrow> 'd engine \<Rightarrow> settings \<Rightarrow> string \<Rightarrow> nat \<Rightarrow> ('d, 'x) local_state_scheme store_ops" where
  "local_ops K E c gid fuel =
     \<lparr>st_load = local_load E c gid, st_save = local_save K E c gid,
      st_delete = local_delete K E c gid, st_restore = local_restore K E c gid fuel,
      st_flush = local_flush K, st_forget = local_forget K E c gid,
      st_discard = local_discard E c gid, st_held = local_held, st_close = local_close K E c gid\<rparr>"

section \<open>The laws of the engine\<close>

definition set_key :: "(string \<Rightarrow> string \<rightharpoonup> 'w) \<Rightarrow> string \<Rightarrow> string \<Rightarrow> 'w option \<Rightarrow> string \<Rightarrow> string \<rightharpoonup> 'w" where
  "set_key m q k x = m(q := (m q)(k := x))"

text \<open>Opening and closing keep what a directory holds; a read returns it.\<close>

definition engine_reads :: "'d engine \<Rightarrow> bool" where
  "engine_reads E \<longleftrightarrow>
     (\<forall>d q. rd_contents E (snd (rd_open E d q)) = rd_contents E d) \<and>
     (\<forall>d q. rd_contents E (rd_close E d q) = rd_contents E d) \<and>
     (\<forall>d q k v. rd_get E d q k = Inr v \<longrightarrow> v = rd_contents E d q k)"

text \<open>A write or a deletion changes one key of one directory; one that raised may or may not have
  happened.\<close>

definition engine_writes :: "'d engine \<Rightarrow> bool" where
  "engine_writes E \<longleftrightarrow>
     (\<forall>d q k v r d'. rd_put E d q k v = (r, d') \<longrightarrow>
        rd_contents E d' = set_key (rd_contents E d) q k (Some v) \<or>
        (r \<noteq> None \<and> rd_contents E d' = rd_contents E d)) \<and>
     (\<forall>d q k r d'. rd_del E d q k = (r, d') \<longrightarrow>
        rd_contents E d' = set_key (rd_contents E d) q k None \<or>
        (r \<noteq> None \<and> rd_contents E d' = rd_contents E d))"

text \<open>Destroying a directory empties it, an absent directory is empty, and the checkpoint files are
  not part of any directory.\<close>

definition engine_resets :: "'d engine \<Rightarrow> bool" where
  "engine_resets E \<longleftrightarrow>
     (\<forall>d q d'. rd_destroy E d q = (None, d') \<longrightarrow>
        rd_contents E d' = (rd_contents E d)(q := Map.empty)) \<and>
     (\<forall>d q d'. fs_rmtree E d q = (None, d') \<longrightarrow>
        rd_contents E d' = (rd_contents E d)(q := Map.empty)) \<and>
     (\<forall>d q. \<not> fs_exists E d q \<longrightarrow> rd_contents E d q = Map.empty) \<and>
     (\<forall>d q t. rd_contents E (snd (fs_write E d q t)) = rd_contents E d) \<and>
     (\<forall>d q. rd_contents E (snd (fs_unlink E d q)) = rd_contents E d)"

definition engine_ok :: "'d engine \<Rightarrow> bool" where
  "engine_ok E \<longleftrightarrow> engine_reads E \<and> engine_writes E \<and> engine_resets E"

text \<open>What the local store holds of a partition, and of an order; the invariant is that every value
  held is one this module can decode.\<close>

definition held_contents ::
    "'d engine \<Rightarrow> settings \<Rightarrow> string \<Rightarrow> ('d, 'x) local_state_scheme \<Rightarrow> int \<Rightarrow> string \<rightharpoonup> wire" where
  "held_contents E c gid s p = rd_contents E (disk s) (path_for c gid p)"

definition stored_at ::
    "'d engine \<Rightarrow> settings \<Rightarrow> string \<Rightarrow> ('d, 'x) local_state_scheme \<Rightarrow> int \<Rightarrow> string \<Rightarrow> stored option" where
  "stored_at E c gid s p oid =
     (case held_contents E c gid s p oid of
        None \<Rightarrow> None
      | Some w \<Rightarrow> (case decode_record oid w of Inl _ \<Rightarrow> None | Inr r \<Rightarrow> Some r))"

definition local_fold ::
    "'d engine \<Rightarrow> settings \<Rightarrow> string \<Rightarrow> ('d, 'x) local_state_scheme \<Rightarrow> int \<Rightarrow> string \<Rightarrow> order_fold option" where
  "local_fold E c gid s p oid = map_option rec_fold (stored_at E c gid s p oid)"

definition decodable :: "(string \<rightharpoonup> wire) \<Rightarrow> bool" where
  "decodable m \<longleftrightarrow> (\<forall>oid w. m oid = Some w \<longrightarrow> (\<exists>r. decode_record oid w = Inr r))"

definition local_ok :: "'d engine \<Rightarrow> settings \<Rightarrow> string \<Rightarrow> ('d, 'x) local_state_scheme \<Rightarrow> bool" where
  "local_ok E c gid s \<longleftrightarrow> engine_ok E \<and> (\<forall>p. decodable (held_contents E c gid s p))"

text \<open>A disk that is a dictionary of dictionaries satisfies the laws: the instance the witnesses use.\<close>

type_synonym map_disk = "(string \<rightharpoonup> string \<rightharpoonup> wire) \<times> (string \<rightharpoonup> string)"

definition dir_of :: "map_disk \<Rightarrow> string \<Rightarrow> string \<rightharpoonup> wire" where
  "dir_of d q = (case fst d q of None \<Rightarrow> Map.empty | Some m \<Rightarrow> m)"

definition map_engine :: "map_disk engine" where
  "map_engine =
     \<lparr>rd_open = (\<lambda>d q. (None, ((fst d)(q \<mapsto> dir_of d q), snd d))),
      rd_close = (\<lambda>d q. d),
      rd_get = (\<lambda>d q k. Inr (dir_of d q k)),
      rd_put = (\<lambda>d q k v. (None, ((fst d)(q \<mapsto> (dir_of d q)(k \<mapsto> v)), snd d))),
      rd_del = (\<lambda>d q k. (None, ((fst d)(q \<mapsto> (dir_of d q)(k := None)), snd d))),
      rd_destroy = (\<lambda>d q. (None, ((fst d)(q := None), snd d))),
      fs_exists = (\<lambda>d q. fst d q \<noteq> None),
      fs_rmtree = (\<lambda>d q. if fst d q = None then (Some (OtherError ''FileNotFoundError'' q), d)
                         else (None, ((fst d)(q := None), snd d))),
      fs_read = (\<lambda>d q. snd d q),
      fs_write = (\<lambda>d q t. (None, (fst d, (snd d)(q \<mapsto> t)))),
      fs_unlink = (\<lambda>d q. (None, (fst d, (snd d)(q := None)))),
      rd_contents = dir_of\<rparr>"

section \<open>Lemmas\<close>

lemma dir_of_simps [simp]:
  "dir_of ((fst d)(q \<mapsto> m), x) = (dir_of d)(q := m)"
  "dir_of ((fst d)(q := None), x) = (dir_of d)(q := Map.empty)"
  "dir_of (fst d, x) = dir_of d"
  by (auto simp: dir_of_def fun_eq_iff)

lemma local_update_order [simp]:
  "trace_update f (handles_update g s) = handles_update g (trace_update f s)"
  "trace_update f (disk_update h s) = disk_update h (trace_update f s)"
  "markers_update i (handles_update g s) = handles_update g (markers_update i s)"
  "markers_update i (disk_update h s) = disk_update h (markers_update i s)"
  "position_update j (handles_update g s) = handles_update g (position_update j s)"
  "position_update j (disk_update h s) = disk_update h (position_update j s)"
  "mem_folds_update k (handles_update g s) = handles_update g (mem_folds_update k s)"
  "mem_folds_update k (disk_update h s) = disk_update h (mem_folds_update k s)"
  "mem_handled_update l (handles_update g s) = handles_update g (mem_handled_update l s)"
  "mem_handled_update l (disk_update h s) = disk_update h (mem_handled_update l s)"
  by simp_all

lemma map_engine_ok [simp]: "engine_ok map_engine"
  unfolding engine_ok_def
proof (intro conjI)
  show "engine_reads map_engine"
    by (simp add: engine_reads_def map_engine_def)
  show "engine_writes map_engine"
    by (auto simp: engine_writes_def map_engine_def set_key_def)
  show "engine_resets map_engine"
    by (auto simp: engine_resets_def map_engine_def split: if_splits) (auto simp: dir_of_def)
qed

lemma path_for_inject [simp]: "path_for c gid p = path_for c gid q \<longleftrightarrow> p = q"
  by (simp add: path_for_def)

lemma decode_encode_record [simp]:
  "f_order_id (rec_fold r) = oid \<Longrightarrow> decode_record oid (encode_record r) = Inr r"
  by (cases "f_state (rec_fold r)") (auto simp: decode_record_def encode_record_def)

lemma decode_record_order_id: "decode_record oid w = Inr r \<Longrightarrow> f_order_id (rec_fold r) = oid"
  by (auto simp: decode_record_def Option.bind_eq_Some_conv split: option.splits)

lemma engine_okD:
  assumes "engine_ok E"
  shows "rd_contents E (snd (rd_open E d q)) = rd_contents E d"
    and "rd_contents E (rd_close E d q) = rd_contents E d"
    and "rd_get E d q k = Inr v \<Longrightarrow> v = rd_contents E d q k"
  using assms by (simp_all add: engine_ok_def engine_reads_def)

lemma engine_put:
  assumes "engine_ok E" and "rd_put E d q k v = (r, d')"
  shows "rd_contents E d' = set_key (rd_contents E d) q k (Some v) \<or>
     (r \<noteq> None \<and> rd_contents E d' = rd_contents E d)"
  using assms unfolding engine_ok_def engine_writes_def by blast

lemma engine_del:
  assumes "engine_ok E" and "rd_del E d q k = (r, d')"
  shows "rd_contents E d' = set_key (rd_contents E d) q k None \<or>
     (r \<noteq> None \<and> rd_contents E d' = rd_contents E d)"
  using assms unfolding engine_ok_def engine_writes_def by blast

lemma engine_reset:
  assumes "engine_ok E"
  shows "rd_destroy E d q = (None, d') \<Longrightarrow> rd_contents E d' = (rd_contents E d)(q := Map.empty)"
    and "\<not> fs_exists E d q \<Longrightarrow> rd_contents E d q = Map.empty"
  using assms unfolding engine_ok_def engine_resets_def by blast+

text \<open>Operations that leave what the store holds as it was.\<close>

definition contents_eq ::
    "'d engine \<Rightarrow> ('d, 'x) local_state_scheme \<Rightarrow> ('d, 'x) local_state_scheme \<Rightarrow> bool" where
  "contents_eq E s t \<longleftrightarrow> rd_contents E (disk t) = rd_contents E (disk s)"

lemma reflp_contents_eq [simp]: "reflp (contents_eq E)"
  by (simp add: reflp_def contents_eq_def)

lemma transp_contents_eq [simp]: "transp (contents_eq E)"
  by (simp add: transp_def contents_eq_def)

text \<open>Client calls never touch the disk, the handles or the memory backend.\<close>

definition disk_eq :: "('d, 'x) local_state_scheme \<Rightarrow> ('d, 'x) local_state_scheme \<Rightarrow> bool" where
  "disk_eq s t \<longleftrightarrow> disk t = disk s \<and> handles t = handles s \<and> mem_folds t = mem_folds s
     \<and> mem_handled t = mem_handled s"

lemma reflp_disk_eq [simp]: "reflp disk_eq"
  by (simp add: reflp_def disk_eq_def)

lemma transp_disk_eq [simp]: "transp disk_eq"
  by (simp add: transp_def disk_eq_def)

lemma keeps_disk_call [keeps_rules]: "keeps disk_eq (call K k)"
  by (auto simp: keeps_def call_def disk_eq_def split: option.splits)

lemma keeps_disk_mark [keeps_rules]: "keeps disk_eq (mark m)"
  by (auto simp: keeps_def disk_eq_def)

lemma keeps_disk_ask [keeps_rules]: "keeps disk_eq (ask K k f)"
  unfolding ask_def by (intro keeps_rules) simp_all

lemma keeps_disk_serve [keeps_rules]: "keeps disk_eq (serve_reports rs)"
proof (rule keepsI)
  fix s :: "('a, 'b) local_state_scheme"
  show "disk_eq s (snd (serve_reports rs s))"
    by (rule serve_reports_frame [of rs s]) (simp add: disk_eq_def)
qed

lemma keeps_disk_flush [keeps_rules]: "keeps disk_eq (producer_flush K)"
  unfolding producer_flush_def by (intro keeps_rules) (auto split: prod.splits intro!: keeps_rules)

lemma keeps_disk_poll [keeps_rules]: "keeps disk_eq (producer_poll K)"
  unfolding producer_poll_def by (intro keeps_rules) simp_all

lemma keeps_disk_publish [keeps_rules]: "keeps disk_eq (local_publish K c gid oid v)"
  unfolding local_publish_def Let_def
  by (intro keeps_rules) (auto intro!: keeps_rules split: exn.splits)

lemma keeps_disk_local_flush [keeps_rules]: "keeps disk_eq (local_flush K)"
  unfolding local_flush_def by (intro keeps_rules) (auto intro!: keeps_rules split: prod.splits)

lemma disk_eq_contents: "disk_eq s t \<Longrightarrow> contents_eq E s t"
  by (simp add: disk_eq_def contents_eq_def)

lemma store_for_contents:
  assumes "engine_ok E" and "store_for E c gid p s = (r, t)"
  shows "contents_eq E s t"
  using assms(2) engine_okD(1) [OF assms(1), of "disk s" "path_for c gid p"]
  by (auto simp: store_for_def bindC_def gets_def ret_def on_disk_def modify_def contents_eq_def
      split: if_splits prod.splits option.splits)

lemma local_get_run:
  assumes "engine_ok E" and "local_get E c gid p oid what s = (r, t)"
  shows "t = s \<and> (\<forall>v. r = Ok v \<longrightarrow> v = held_contents E c gid s p oid)"
  using assms(2) engine_okD(3) [OF assms(1), of "disk s" "path_for c gid p" oid]
  by (auto simp: local_get_def raise_def ret_def held_contents_def split: sum.splits)

lemma local_read_run:
  assumes E: "engine_ok E" and rd: "local_read E c gid p oid s = (r, t)"
  shows "contents_eq E s t \<and> (\<forall>v. r = Ok v \<longrightarrow> v = stored_at E c gid s p oid)"
proof -
  obtain r1 s1 where s1: "store_for E c gid p s = (r1, s1)" by (cases "store_for E c gid p s")
  note c1 = store_for_contents [OF E s1]
  obtain r2 s2 where s2: "local_get E c gid p oid ''reading '' s1 = (r2, s2)"
    by (cases "local_get E c gid p oid ''reading '' s1")
  from local_get_run [OF E s2]
  have g: "s2 = s1" "\<And>v. r2 = Ok v \<Longrightarrow> v = held_contents E c gid s1 p oid" by auto
  have eq: "held_contents E c gid s1 p = held_contents E c gid s p"
    using c1 by (simp add: contents_eq_def held_contents_def)
  have "contents_eq E s t"
    using rd s1 s2 g(1) c1
    by (cases r1; cases r2)
      (auto simp: local_read_def bindC_def ret_def raise_def split: option.splits sum.splits)
  moreover have "v = stored_at E c gid s p oid" if "r = Ok v" for v
    using rd s1 s2 g eq that
    by (cases r1; cases r2)
      (auto simp: local_read_def bindC_def ret_def raise_def stored_at_def
        split: option.splits sum.splits)
  ultimately show ?thesis by blast
qed

lemma on_disk_run:
  assumes "on_disk f wrap s = (r, t)"
  shows "t = s\<lparr>disk := snd (f (disk s))\<rparr> \<and> (r = Ok () \<longleftrightarrow> fst (f (disk s)) = None)"
  using assms by (auto simp: on_disk_def split: prod.splits option.splits)

lemma publish_contents:
  assumes "local_publish K c gid oid v s = (r, t)"
  shows "contents_eq E s t"
  using keepsD [OF keeps_disk_publish assms] by (rule disk_eq_contents)

text \<open>A write either puts exactly this value under exactly this key, or raises and leaves what was
  held.\<close>

lemma local_write_run:
  assumes E: "engine_ok E" and w: "local_write K E c gid p oid v s = (r, t)"
  shows "rd_contents E (disk t) =
           set_key (rd_contents E (disk s)) (path_for c gid p) oid (Some v) \<or>
         (r \<noteq> Ok () \<and> contents_eq E s t)"
proof -
  let ?q = "path_for c gid p"
  obtain r1 s1 where s1: "store_for E c gid p s = (r1, s1)" by (cases "store_for E c gid p s")
  note c1 = store_for_contents [OF E s1]
  obtain r2 s2 where s2: "on_disk (\<lambda>d. rd_put E d ?q oid v)
      (\<lambda>e. ''writing '' @ oid @ '': '' @ exn_text e) s1 = (r2, s2)"
    by (metis surj_pair)
  obtain x d' where put: "rd_put E (disk s1) ?q oid v = (x, d')" by (metis surj_pair)
  from on_disk_run [OF s2] put have s2': "disk s2 = d'" "r2 = Ok () \<longleftrightarrow> x = None" by auto
  obtain r3 s3 where s3: "local_publish K c gid oid (Some v) s2 = (r3, s3)"
    by (cases "local_publish K c gid oid (Some v) s2")
  note c3 = publish_contents [OF s3, where E = E]
  show ?thesis
  proof (cases "r1 = Ok () \<and> r2 = Ok ()")
    case True
    then have "t = s3" and "r = r3" using w s1 s2 s3 by (auto simp: local_write_def bindC_def split: outcome.splits)
    moreover have "rd_contents E d' = set_key (rd_contents E (disk s1)) ?q oid (Some v)"
      using engine_put [OF E put] s2'(2) True by auto
    ultimately show ?thesis using c1 c3 s2'(1) by (simp add: contents_eq_def)
  next
    case False
    have "r \<noteq> Ok ()" and "t = s1 \<or> t = s2"
      using w s1 s2 False by (auto simp: local_write_def bindC_def split: outcome.splits)
    then show ?thesis
      using engine_put [OF E put] c1 s2'(1) by (auto simp: contents_eq_def)
  qed
qed

lemma local_save_run:
  assumes E: "engine_ok E" and sv: "local_save K E c gid p oid f eid s = (r, t)"
  defines "row \<equiv> snd (next_record (stored_at E c gid s p oid) f eid)"
  shows "(rd_contents E (disk t) =
            set_key (rd_contents E (disk s)) (path_for c gid p) oid (Some (encode_record row)) \<and>
          (\<forall>x. r = Ok x \<longrightarrow> x = fst (next_record (stored_at E c gid s p oid) f eid))) \<or>
         ((\<forall>x. r \<noteq> Ok x) \<and> contents_eq E s t)"
proof -
  obtain r1 s1 where s1: "local_read E c gid p oid s = (r1, s1)" by (cases "local_read E c gid p oid s")
  note rd = local_read_run [OF E s1]
  show ?thesis
  proof (cases r1)
    case (Ok prev)
    then have prev: "prev = stored_at E c gid s p oid" using rd by blast
    obtain r2 s2 where s2: "local_write K E c gid p oid (encode_record row) s1 = (r2, s2)"
      by (metis surj_pair)
    have t: "t = s2" "r = (case r2 of Ok _ \<Rightarrow> Ok (fst (next_record prev f eid))
        | Raise e \<Rightarrow> Raise e | Exit n \<Rightarrow> Exit n)"
      using sv s1 s2 Ok prev
      by (auto simp: local_save_def bindC_def ret_def row_def split: prod.splits outcome.splits)
    show ?thesis
      using local_write_run [OF E s2] rd t prev
      by (cases r2) (auto simp: contents_eq_def)
  next
    case (Raise e)
    with sv s1 rd show ?thesis by (auto simp: local_save_def bindC_def)
  next
    case (Exit n)
    with sv s1 rd show ?thesis by (auto simp: local_save_def bindC_def)
  qed
qed

lemma local_delete_run:
  assumes E: "engine_ok E" and dl: "local_delete K E c gid p oid s = (r, t)"
  shows "(rd_contents E (disk t) = set_key (rd_contents E (disk s)) (path_for c gid p) oid None \<and>
          (\<forall>b. r = Ok b \<longrightarrow> b = (held_contents E c gid s p oid \<noteq> None))) \<or>
         ((\<forall>b. r \<noteq> Ok b) \<and> contents_eq E s t)"
proof -
  let ?q = "path_for c gid p"
  obtain r1 s1 where s1: "store_for E c gid p s = (r1, s1)" by (cases "store_for E c gid p s")
  note c1 = store_for_contents [OF E s1]
  obtain r2 s2 where s2: "local_get E c gid p oid ''deleting '' s1 = (r2, s2)"
    by (cases "local_get E c gid p oid ''deleting '' s1")
  note g = local_get_run [OF E s2]
  show ?thesis
  proof (cases "\<exists>raw. r1 = Ok () \<and> r2 = Ok raw")
    case False
    then have "(\<forall>b. r \<noteq> Ok b) \<and> t = s1"
      using dl s1 s2 g by (cases r1; cases r2) (auto simp: local_delete_def bindC_def)
    with c1 show ?thesis by blast
  next
    case True
    then obtain raw where ok: "r1 = Ok ()" "r2 = Ok raw" by blast
    have raw: "raw = held_contents E c gid s p oid"
      using g ok c1 by (simp add: contents_eq_def held_contents_def)
    let ?del = "if raw \<noteq> None then on_disk (\<lambda>d. rd_del E d ?q oid)
        (\<lambda>e. ''deleting '' @ oid @ '': '' @ exn_text e) else ret ()"
    obtain r3 s3 where s3: "?del s1 = (r3, s3)" by (metis surj_pair)
    obtain r4 s4 where s4: "local_publish K c gid oid None s3 = (r4, s4)" by (metis surj_pair)
    note c4 = publish_contents [OF s4, where E = E]
    have run: "local_delete K E c gid p oid s =
        (case r3 of Ok _ \<Rightarrow> (case r4 of Ok _ \<Rightarrow> (Ok (raw \<noteq> None), s4) | Raise e \<Rightarrow> (Raise e, s4)
             | Exit n \<Rightarrow> (Exit n, s4))
         | Raise e \<Rightarrow> (Raise e, s3) | Exit n \<Rightarrow> (Exit n, s3))"
      using s1 s2 s3 s4 ok g
      by (auto simp: local_delete_def bindC_def ret_def split: outcome.splits)
    have c3: "rd_contents E (disk s3) = set_key (rd_contents E (disk s)) ?q oid None \<or>
        ((\<forall>x. r3 \<noteq> Ok x) \<and> contents_eq E s s3)"
    proof (cases "raw = None")
      case True
      then have "rd_contents E (disk s) ?q oid = None" by (simp add: raw held_contents_def)
      then have "set_key (rd_contents E (disk s)) ?q oid None = rd_contents E (disk s)"
        by (simp add: set_key_def fun_eq_iff)
      with True s3 c1 show ?thesis by (auto simp: ret_def contents_eq_def)
    next
      case False
      obtain x d' where del: "rd_del E (disk s1) ?q oid = (x, d')" by (metis surj_pair)
      from False s3 have "on_disk (\<lambda>d. rd_del E d ?q oid)
          (\<lambda>e. ''deleting '' @ oid @ '': '' @ exn_text e) s1 = (r3, s3)" by simp
      from on_disk_run [OF this] del have "disk s3 = d'" "r3 = Ok () \<longleftrightarrow> x = None" by auto
      with engine_del [OF E del] c1 show ?thesis by (auto simp: contents_eq_def)
    qed
    show ?thesis
      using c3 c4 dl run raw by (cases r3; cases r4) (auto simp: contents_eq_def)
  qed
qed

text \<open>What a changed key means for what the store knows.\<close>

lemma stored_at_set_key:
  assumes "rd_contents E (disk t) = set_key (rd_contents E (disk s)) (path_for c gid p) oid x"
  shows "stored_at E c gid t p' oid' =
    (if p' = p \<and> oid' = oid
     then (case x of None \<Rightarrow> None | Some w \<Rightarrow>
             (case decode_record oid w of Inl _ \<Rightarrow> None | Inr r \<Rightarrow> Some r))
     else stored_at E c gid s p' oid')"
  using assms by (auto simp: stored_at_def held_contents_def set_key_def)

lemma stored_at_contents_eq: "contents_eq E s t \<Longrightarrow> stored_at E c gid t = stored_at E c gid s"
  by (simp add: contents_eq_def stored_at_def held_contents_def fun_eq_iff)

lemma next_record_order_id:
  assumes "f_order_id f = oid" and "stored_at E c gid s p oid = prev"
  shows "f_order_id (rec_fold (snd (next_record prev f eid))) = oid"
  using assms
  by (auto simp: next_record_def Let_def stored_at_def dest: decode_record_order_id
      split: option.splits sum.splits)

lemma local_ok_set_key:
  assumes "local_ok E c gid s"
    and "rd_contents E (disk t) = set_key (rd_contents E (disk s)) (path_for c gid p) oid x"
    and "\<forall>w. x = Some w \<longrightarrow> (\<exists>r. decode_record oid w = Inr r)"
  shows "local_ok E c gid t"
  using assms by (auto simp: local_ok_def decodable_def held_contents_def set_key_def)

lemma local_ok_contents_eq: "local_ok E c gid s \<Longrightarrow> contents_eq E s t \<Longrightarrow> local_ok E c gid t"
  by (simp add: local_ok_def contents_eq_def held_contents_def)

lemma stored_at_None_iff:
  "local_ok E c gid s \<Longrightarrow> stored_at E c gid s p oid = None \<longleftrightarrow> held_contents E c gid s p oid = None"
  by (fastforce simp: local_ok_def decodable_def stored_at_def split: option.splits sum.splits)

text \<open>After a save the store knows the row \<open>next_record\<close> computes; the guard absorbs what is not
  newer.\<close>

lemma local_save_stored:
  assumes ok: "local_ok E c gid s" and f: "f_order_id f = oid"
    and sv: "local_save K E c gid p oid f eid s = (r, t)"
  shows "local_ok E c gid t \<and>
     ((stored_at E c gid t = (\<lambda>p' oid'. if p' = p \<and> oid' = oid
         then Some (snd (next_record (stored_at E c gid s p oid) f eid))
         else stored_at E c gid s p' oid') \<and>
       (\<forall>x. r = Ok x \<longrightarrow> x = fst (next_record (stored_at E c gid s p oid) f eid))) \<or>
      ((\<forall>x. r \<noteq> Ok x) \<and> stored_at E c gid t = stored_at E c gid s))"
proof -
  have E: "engine_ok E" using ok by (simp add: local_ok_def)
  let ?row = "snd (next_record (stored_at E c gid s p oid) f eid)"
  have dec: "decode_record oid (encode_record ?row) = Inr ?row"
    by (rule decode_encode_record) (rule next_record_order_id [OF f refl])
  from local_save_run [OF E sv] show ?thesis
  proof (elim disjE conjE)
    assume c: "rd_contents E (disk t) = set_key (rd_contents E (disk s)) (path_for c gid p) oid
        (Some (encode_record ?row))"
      and "\<forall>x. r = Ok x \<longrightarrow> x = fst (next_record (stored_at E c gid s p oid) f eid)"
    then show ?thesis
      using local_ok_set_key [OF ok c] dec by (auto simp: stored_at_set_key [OF c] fun_eq_iff)
  next
    assume "\<forall>x. r \<noteq> Ok x" and "contents_eq E s t"
    then show ?thesis using local_ok_contents_eq [OF ok] by (simp add: stored_at_contents_eq)
  qed
qed

lemma next_record_applied:
  "so_applied (fst (next_record prev f eid)) \<Longrightarrow> rec_fold (snd (next_record prev f eid)) = f"
  by (simp add: next_record_def Let_def)

lemma next_record_absorbed:
  "\<not> so_applied (fst (next_record (Some r) f eid)) \<Longrightarrow>
   rec_fold (snd (next_record (Some r) f eid)) = rec_fold r"
  by (auto simp: next_record_def Let_def)

interpretation local_folds: fold_store "local_load E c gid" "local_save K E c gid" "local_delete K E c gid"
  "local_fold E c gid" "local_ok E c gid" for K E c gid
proof unfold_locales
  fix s :: "('a, 'b) local_state_scheme" and p oid g t
  assume ok: "local_ok E c gid s" and ld: "local_load E c gid p oid s = (Ok g, t)"
  then obtain v where "local_read E c gid p oid s = (Ok v, t)" "g = map_option rec_fold v"
    by (auto simp: local_load_def ret_def elim!: bindC_OkE)
  with local_read_run [of E c gid p oid s] ok show "g = local_fold E c gid s p oid"
    by (auto simp: local_fold_def local_ok_def)
next
  fix s :: "('a, 'b) local_state_scheme" and p oid out1 t
  assume ok: "local_ok E c gid s" and ld: "local_load E c gid p oid s = (out1, t)"
  obtain r u where ru: "local_read E c gid p oid s = (r, u)" by (cases "local_read E c gid p oid s")
  then have "t = u"
    using ld by (cases r) (auto simp: local_load_def bindC_def ret_def)
  with local_read_run [of E c gid p oid s, OF _ ru] ok have "contents_eq E s t"
    by (simp add: local_ok_def)
  then show "local_ok E c gid t \<and> local_fold E c gid t = local_fold E c gid s"
    using local_ok_contents_eq [OF ok] by (simp add: local_fold_def stored_at_contents_eq fun_eq_iff)
next
  fix s :: "('a, 'b) local_state_scheme" and f oid p eid r t
  assume "local_ok E c gid s" "f_order_id f = oid" "local_save K E c gid p oid f eid s = (Ok r, t)"
    "so_applied r"
  with local_save_stored [of E c gid s f oid K p eid "Ok r" t]
  show "local_fold E c gid t p oid = Some f"
    by (auto simp: local_fold_def next_record_applied)
next
  fix s :: "('a, 'b) local_state_scheme" and f oid p eid r t
  assume "local_ok E c gid s" "f_order_id f = oid" "local_save K E c gid p oid f eid s = (Ok r, t)"
    "\<not> so_applied r" "local_fold E c gid s p oid \<noteq> None"
  with local_save_stored [of E c gid s f oid K p eid "Ok r" t]
  show "local_fold E c gid t p oid = local_fold E c gid s p oid"
    by (auto simp: local_fold_def next_record_absorbed)
next
  fix s :: "('a, 'b) local_state_scheme" and f oid p eid out2 t
  assume "local_ok E c gid s" "f_order_id f = oid" "local_save K E c gid p oid f eid s = (out2, t)"
  then show "local_ok E c gid t" using local_save_stored by blast
next
  fix s :: "('a, 'b) local_state_scheme" and f oid p eid out2 t p' oid'
  assume "local_ok E c gid s" "f_order_id f = oid" "local_save K E c gid p oid f eid s = (out2, t)"
    "(p', oid') \<noteq> (p, oid)"
  with local_save_stored [of E c gid s f oid K p eid out2 t]
  show "local_fold E c gid t p' oid' = local_fold E c gid s p' oid'"
    by (auto simp: local_fold_def)
next
  fix s :: "('a, 'b) local_state_scheme" and p oid b t
  assume ok: "local_ok E c gid s" and dl: "local_delete K E c gid p oid s = (Ok b, t)"
  then have "engine_ok E" by (simp add: local_ok_def)
  from local_delete_run [OF this dl] stored_at_None_iff [OF ok]
  show "local_fold E c gid t p oid = None \<and> b = (local_fold E c gid s p oid \<noteq> None)"
    by (auto simp: local_fold_def stored_at_set_key)
next
  fix s :: "('a, 'b) local_state_scheme" and p oid out3 t
  assume ok: "local_ok E c gid s" and dl: "local_delete K E c gid p oid s = (out3, t)"
  then have "engine_ok E" by (simp add: local_ok_def)
  from local_delete_run [OF this dl] show "local_ok E c gid t"
    using local_ok_set_key [OF ok] local_ok_contents_eq [OF ok] by fastforce
next
  fix s :: "('a, 'b) local_state_scheme" and p oid out3 t p' oid'
  assume ok: "local_ok E c gid s" and dl: "local_delete K E c gid p oid s = (out3, t)"
    and ne: "(p', oid') \<noteq> (p, oid)"
  then have "engine_ok E" by (simp add: local_ok_def)
  from local_delete_run [OF this dl] ne
  show "local_fold E c gid t p' oid' = local_fold E c gid s p' oid'"
    by (auto simp: local_fold_def stored_at_set_key stored_at_contents_eq)
qed

end
