(* ===== verification/Transactions.thy ===== *)
theory Transactions
  imports Local_Store
begin

text \<open>
  \<^verbatim>\<open>src/order_service/consumer/transactions.py\<close>: the one producer of a consumer process and the two
  ways its offsets are committed. \<open>process\<close> extends the state of the stores with the fields of
  \<^verbatim>\<open>TransactionalCommitter\<close>; the protocol \<^verbatim>\<open>CommitStrategy\<close> is the record \<open>commit_ops\<close>, and what
  the consume loop may rely on whichever strategy it was given is the locale \<open>commit_strategy\<close>. A
  dictionary whose insertion order matters (\<^verbatim>\<open>_offsets\<close>) is an association list, the set
  \<^verbatim>\<open>_touched\<close> a list without duplicates.
\<close>

section \<open>State\<close>

record 'd process = "'d local_state" +
  tx_open :: bool
  tx_messages :: int
  tx_opened_at :: rat
  tx_touched :: "int list"
  tx_offsets :: "(topic_partition \<times> int) list"
  counts :: "string \<Rightarrow> int" \<comment> \<open>the tally of the analytics service, by event type\<close>

record 's commit_ops =
  cs_note :: "message \<Rightarrow> ('s, unit) comp"
  cs_maybe_commit :: "('s, unit) comp"
  cs_abort :: "string \<Rightarrow> ('s, int list) comp"
  cs_close :: "('s, unit) comp"

section \<open>The producer\<close>

text \<open>\<^verbatim>\<open>KafkaError._FENCED\<close>, \<^verbatim>\<open>INVALID_PRODUCER_EPOCH\<close>, \<^verbatim>\<open>PRODUCER_FENCED\<close>, by their codes.\<close>

definition FENCING_CODES :: "int list" where
  "FENCING_CODES = [-144, 47, 90]"

definition is_fenced :: "exn \<Rightarrow> bool" where
  "is_fenced e = (case e of KafkaException code _ \<Rightarrow> code \<in> set FENCING_CODES | _ \<Rightarrow> False)"

definition build_producer :: "string \<Rightarrow> settings \<Rightarrow> string \<Rightarrow> string \<Rightarrow> (string \<times> string) list" where
  "build_producer host c group_id inst =
     [(''bootstrap.servers'', kafka_bootstrap_servers c),
      (''acks'', ''all''),
      (''partitioner'', ''consistent_random''),
      (''client.id'', group_id @ ''-'' @ inst),
      (''enable.idempotence'', if exactly_once c \<or> producer_idempotence c then ''True'' else ''False'')] @
     (if exactly_once c
      then [(''transactional.id'', transactional_id_for host c group_id),
            (''transaction.timeout.ms'', py_str (transaction_timeout_ms c))]
      else [])"

section \<open>At least once\<close>

definition direct_note :: "kafka \<Rightarrow> message \<Rightarrow> ('x client_scheme, unit) comp" where
  "direct_note K m =
     tryC (call K (CommitOffset (m_topic m) (m_partition m) (m_offset m + 1)))
       (\<lambda>e. case e of
          KafkaException _ _ \<Rightarrow> mark (COMMIT_REJECTED (m_partition m) (m_offset m))
        | _ \<Rightarrow> raise e)"

definition direct_ops :: "kafka \<Rightarrow> 'x client_scheme commit_ops" where
  "direct_ops K =
     \<lparr>cs_note = direct_note K, cs_maybe_commit = ret (), cs_abort = (\<lambda>_. ret []), cs_close = ret ()\<rparr>"

section \<open>Exactly once\<close>

definition raise_if_fenced :: "string \<Rightarrow> exn \<Rightarrow> ('s, unit) comp" where
  "raise_if_fenced tid e =
     (if is_fenced e
      then raise (ProducerFenced (''transactional.id '' @ tid @ '' was taken by another producer: '' @
        exn_text e))
      else ret ())"

text \<open>\<^verbatim>\<open>except KafkaException as exc: self._raise_if_fenced(exc); raise\<close>.\<close>

definition fenced_or_raise :: "string \<Rightarrow> exn \<Rightarrow> ('s, 'a) comp" where
  "fenced_or_raise tid e =
     (case e of KafkaException _ _ \<Rightarrow> thenC (raise_if_fenced tid e) (raise e) | _ \<Rightarrow> raise e)"

definition tx_reset :: "(('d, 'x) process_scheme, unit) comp" where
  "tx_reset = modify (\<lambda>s.
     s\<lparr>tx_open := False, tx_messages := 0, tx_opened_at := 0, tx_touched := [], tx_offsets := []\<rparr>)"

definition tx_init :: "kafka \<Rightarrow> string \<Rightarrow> (('d, 'x) process_scheme, unit) comp" where
  "tx_init K tid =
     thenC tx_reset (tryC (call K InitTransactions) (fenced_or_raise tid))"

definition begin_if_needed :: "kafka \<Rightarrow> string \<Rightarrow> (('d, 'x) process_scheme, unit) comp" where
  "begin_if_needed K tid =
     bindC (gets tx_open) (\<lambda>is_open.
     if is_open then ret ()
     else thenC (tryC (call K BeginTransaction) (fenced_or_raise tid))
            (modify (\<lambda>s. s\<lparr>tx_open := True, tx_messages := 0, tx_opened_at := k_monotonic K (trace s)\<rparr>)))"

text \<open>\<^verbatim>\<open>d[key] = value\<close> on an ordered dictionary.\<close>

fun dict_set :: "('k \<times> 'v) list \<Rightarrow> 'k \<Rightarrow> 'v \<Rightarrow> ('k \<times> 'v) list" where
  "dict_set [] k v = [(k, v)]"
| "dict_set ((k', v') # d) k v = (if k' = k then (k, v) # d else (k', v') # dict_set d k v)"

definition tx_note :: "kafka \<Rightarrow> string \<Rightarrow> message \<Rightarrow> (('d, 'x) process_scheme, unit) comp" where
  "tx_note K tid m =
     thenC (begin_if_needed K tid)
       (modify (\<lambda>s.
          s\<lparr>tx_messages := tx_messages s + 1,
            tx_touched := List.insert (m_partition m) (tx_touched s),
            tx_offsets := dict_set (tx_offsets s) (m_topic m, m_partition m) (m_offset m + 1)\<rparr>))"

definition tx_commit :: "kafka \<Rightarrow> string \<Rightarrow> (('d, 'x) process_scheme, unit) comp" where
  "tx_commit K tid =
     bindC (gets tx_open) (\<lambda>is_open.
     if \<not> is_open then ret ()
     else finallyC
       (tryC (bindC (gets tx_offsets) (\<lambda>offsets.
                thenC (call K (SendOffsets offsets)) (call K CommitTransaction)))
          (fenced_or_raise tid))
       tx_reset)"

definition tx_maybe_commit :: "kafka \<Rightarrow> settings \<Rightarrow> string \<Rightarrow> (('d, 'x) process_scheme, unit) comp" where
  "tx_maybe_commit K c tid =
     bindC (gets (\<lambda>s. (tx_open s, tx_messages s, (k_monotonic K (trace s) - tx_opened_at s) * 1000)))
       (\<lambda>(is_open, n, elapsed).
        if \<not> is_open then ret ()
        else if n \<ge> transaction_commit_interval_messages c \<or>
                elapsed \<ge> of_int (transaction_commit_interval_ms c)
        then tx_commit K tid else ret ())"

definition tx_abort :: "kafka \<Rightarrow> string \<Rightarrow> string \<Rightarrow> (('d, 'x) process_scheme, int list) comp" where
  "tx_abort K tid reason =
     bindC (gets (\<lambda>s. (tx_open s, tx_touched s, tx_messages s))) (\<lambda>(is_open, touched, n).
     if \<not> is_open then ret []
     else thenC (mark (TRANSACTION_ABORTED (sort touched) n))
       (thenC (finallyC
          (tryC (call K AbortTransaction)
             (\<lambda>e. case e of KafkaException _ _ \<Rightarrow> raise_if_fenced tid e | _ \<Rightarrow> raise e))
          tx_reset)
       (ret touched)))"

definition tx_close :: "kafka \<Rightarrow> string \<Rightarrow> (('d, 'x) process_scheme, unit) comp" where
  "tx_close K tid = thenC (tx_abort K tid ''shutdown'') (ret ())"

definition tx_ops :: "kafka \<Rightarrow> settings \<Rightarrow> string \<Rightarrow> ('d, 'x) process_scheme commit_ops" where
  "tx_ops K c tid =
     \<lparr>cs_note = tx_note K tid, cs_maybe_commit = tx_maybe_commit K c tid,
      cs_abort = tx_abort K tid, cs_close = tx_close K tid\<rparr>"

definition build_commit_strategy ::
    "kafka \<Rightarrow> string \<Rightarrow> settings \<Rightarrow> string \<Rightarrow>
     (('d, 'x) process_scheme, ('d, 'x) process_scheme commit_ops) comp" where
  "build_commit_strategy K host c service =
     (if processing_guarantee c = EXACTLY_ONCE
      then (let tid = transactional_id_for host c (group_id_for c service) in
            thenC (tx_init K tid) (ret (tx_ops K c tid)))
      else ret (direct_ops K))"

definition isolation_level :: "settings \<Rightarrow> string" where
  "isolation_level c = isolation_level_value (consumer_isolation_level c)"

text \<open>\<^verbatim>\<open>LocalStateStore._changelog_reader\<close>: the configuration of the assign-only reader of a rebuild,
  with the random suffix of its throwaway group as an argument.\<close>

definition changelog_reader_config :: "settings \<Rightarrow> string \<Rightarrow> string \<Rightarrow> (string \<times> string) list" where
  "changelog_reader_config c gid token =
     [(''bootstrap.servers'', kafka_bootstrap_servers c),
      (''group.id'', gid @ ''-restore-'' @ token),
      (''enable.auto.commit'', ''False''),
      (''auto.offset.reset'', ''earliest''),
      (''enable.partition.eof'', ''True''),
      (''isolation.level'', isolation_level c)]"

section \<open>The contract of a commit strategy\<close>

text \<open>The offsets a process handed to the broker, outside or inside a transaction.\<close>

fun submits :: "kcall \<times> exn option \<Rightarrow> (topic_partition \<times> int) list" where
  "submits (CommitOffset t p n, _) = [((t, p), n)]"
| "submits (SendOffsets os, _) = os"
| "submits _ = []"

definition submitted :: "history \<Rightarrow> (topic_partition \<times> int) set" where
  "submitted h = (\<Union>x\<in>set h. set (submits x))"

definition resume_point :: "message \<Rightarrow> topic_partition \<times> int" where
  "resume_point m = ((m_topic m, m_partition m), m_offset m + 1)"

text \<open>A strategy submits only what it was told is done: noting a message adds that message's resume
  point to what is pending or submitted, and nothing else ever adds anything.\<close>

locale commit_strategy =
  fixes note_msg :: "message \<Rightarrow> ('s, unit) comp"
    and maybe :: "('s, unit) comp"
    and abort :: "string \<Rightarrow> ('s, int list) comp"
    and hist :: "'s \<Rightarrow> history"
    and pending :: "'s \<Rightarrow> (topic_partition \<times> int) set"
  assumes note_adds: "submitted (hist (snd (note_msg m s))) \<union> pending (snd (note_msg m s))
      \<subseteq> insert (resume_point m) (submitted (hist s) \<union> pending s)"
    and maybe_adds: "submitted (hist (snd (maybe s))) \<union> pending (snd (maybe s))
      \<subseteq> submitted (hist s) \<union> pending s"
    and abort_submits: "submitted (hist (snd (abort why s))) = submitted (hist s)"
    and abort_adds: "pending (snd (abort why s)) \<subseteq> pending s"
begin

fun operate :: "(message option + string) list \<Rightarrow> 's \<Rightarrow> 's" where
  "operate [] s = s"
| "operate (Inl (Some m) # ops) s = operate ops (snd (note_msg m s))"
| "operate (Inl None # ops) s = operate ops (snd (maybe s))"
| "operate (Inr why # ops) s = operate ops (snd (abort why s))"

fun noted :: "(message option + string) list \<Rightarrow> (topic_partition \<times> int) set" where
  "noted [] = {}"
| "noted (Inl (Some m) # ops) = insert (resume_point m) (noted ops)"
| "noted (_ # ops) = noted ops"

lemma submitted_were_noted:
  "submitted (hist (operate ops s)) \<union> pending (operate ops s) \<subseteq>
     submitted (hist s) \<union> pending s \<union> noted ops"
proof (induction ops s rule: operate.induct)
  case (1 s)
  then show ?case by simp
next
  case (2 m ops s)
  then show ?case using note_adds [of m s] by auto
next
  case (3 ops s)
  then show ?case using maybe_adds [of s] by auto
next
  case (4 why ops s)
  then show ?case using abort_submits [of why s] abort_adds [of why s] by auto
qed

end

section \<open>Lemmas\<close>

lemma submitted_simps [simp]:
  "submitted [] = {}" "submitted (x # h) = set (submits x) \<union> submitted h"
  "submitted (h @ h') = submitted h \<union> submitted h'"
  by (auto simp: submitted_def)

lemma set_dict_set: "set (dict_set d k v) \<subseteq> insert (k, v) (set d)"
  by (induction d k v rule: dict_set.induct) auto

lemmas tx_defs = tx_note_def begin_if_needed_def tx_maybe_commit_def tx_commit_def tx_abort_def
  tx_reset_def fenced_or_raise_def raise_if_fenced_def

interpretation direct: commit_strategy "direct_note K" "ret ()" "\<lambda>_. ret []" trace "\<lambda>_. {}" for K
proof unfold_locales
  fix m and s :: "'a client_scheme"
  show "submitted (trace (snd (direct_note K m s))) \<union> {} \<subseteq> insert (resume_point m) (submitted (trace s) \<union> {})"
    by (cases rule: call_cases [of K s "CommitOffset (m_topic m) (m_partition m) (m_offset m + 1)"])
      (auto simp: direct_note_def tryC_def raise_def resume_point_def split: exn.splits)
qed (simp_all add: ret_def)

definition fenced_exn :: "string \<Rightarrow> exn \<Rightarrow> exn" where
  "fenced_exn tid e =
     (if is_fenced e then ProducerFenced (''transactional.id '' @ tid @
        '' was taken by another producer: '' @ exn_text e) else e)"

lemma fenced_or_raise_eq: "fenced_or_raise tid e = raise (fenced_exn tid e)"
  by (cases e) (auto simp: fenced_or_raise_def raise_if_fenced_def fenced_exn_def is_fenced_def)

lemma raise_if_fenced_state: "snd (raise_if_fenced tid e s) = s"
  by (simp add: raise_if_fenced_def raise_def ret_def)

lemma begin_if_needed_run:
  "submitted (trace (snd (begin_if_needed K tid s))) = submitted (trace s) \<and>
   tx_offsets (snd (begin_if_needed K tid s)) = tx_offsets s"
proof (cases rule: call_cases [of K s BeginTransaction])
  case returned
  then show ?thesis by (auto simp: begin_if_needed_def bindC_def gets_def tryC_def modify_def ret_def)
next
  case (raised e)
  with raised show ?thesis
    by (auto simp: begin_if_needed_def bindC_def gets_def tryC_def ret_def fenced_or_raise_eq raise_def)
qed

lemma tx_note_run:
  "submitted (trace (snd (tx_note K tid m s))) = submitted (trace s) \<and>
   set (tx_offsets (snd (tx_note K tid m s))) \<subseteq> insert (resume_point m) (set (tx_offsets s))"
proof -
  obtain r t where rt: "begin_if_needed K tid s = (r, t)" by (metis surj_pair)
  with begin_if_needed_run [of K tid s] have "submitted (trace t) = submitted (trace s)"
    "tx_offsets t = tx_offsets s" by auto
  with rt show ?thesis
    using set_dict_set [of "tx_offsets s" "(m_topic m, m_partition m)" "m_offset m + 1"]
    by (cases r) (auto simp: tx_note_def bindC_def modify_def resume_point_def)
qed

lemma tx_commit_run:
  "tx_commit K tid s = (r, t) \<Longrightarrow> tx_open s \<Longrightarrow>
   tx_open t = False \<and> tx_offsets t = [] \<and> tx_touched t = [] \<and>
   (\<exists>l. trace t = trace s @ l \<and> submitted l \<subseteq> set (tx_offsets s) \<and>
      l \<in> {[(SendOffsets (tx_offsets s), Some e)] | e. True} \<union>
          {[(SendOffsets (tx_offsets s), None), (CommitTransaction, x)] | x. True})"
proof -
  assume run: "tx_commit K tid s = (r, t)" and op: "tx_open s"
  let ?send = "SendOffsets (tx_offsets s)"
  show ?thesis
  proof (cases rule: call_cases [of K s ?send])
    case (raised e)
    with raised run op show ?thesis
      by (auto simp: tx_commit_def bindC_def gets_def tryC_def finallyC_def tx_reset_def modify_def
          fenced_or_raise_eq raise_def)
  next
    case returned
    let ?s1 = "s\<lparr>trace := trace s @ [(?send, None)]\<rparr>"
    show ?thesis
    proof (cases rule: call_cases [of K ?s1 CommitTransaction])
      case ok: returned
      with returned run op show ?thesis
        by (auto simp: tx_commit_def bindC_def gets_def tryC_def finallyC_def tx_reset_def modify_def
          fenced_or_raise_eq raise_def)
    next
      case (raised e)
      with returned raised run op show ?thesis
        by (auto simp: tx_commit_def bindC_def gets_def tryC_def finallyC_def tx_reset_def modify_def
          fenced_or_raise_eq raise_def)
    qed
  qed
qed

lemma tx_maybe_commit_run:
  "submitted (trace (snd (tx_maybe_commit K c tid s))) \<union> set (tx_offsets (snd (tx_maybe_commit K c tid s)))
     \<subseteq> submitted (trace s) \<union> set (tx_offsets s)"
proof -
  obtain r t where rt: "tx_commit K tid s = (r, t)" by (metis surj_pair)
  then show ?thesis
    using tx_commit_run [OF rt]
    by (auto simp: tx_maybe_commit_def bindC_def gets_def ret_def)
qed

lemma abort_handler_run:
  "\<exists>r'. (case e of KafkaException _ _ \<Rightarrow> raise_if_fenced tid e | _ \<Rightarrow> raise e) s = (r', s)"
  by (cases e; cases "is_fenced e") (auto simp: raise_if_fenced_def raise_def ret_def)

lemma tx_abort_run:
  assumes "tx_abort K tid why s = (r, t)"
  shows "submitted (trace t) = submitted (trace s) \<and> set (tx_offsets t) \<subseteq> set (tx_offsets s)"
proof (cases "tx_open s")
  case False
  with assms show ?thesis by (auto simp: tx_abort_def bindC_def gets_def ret_def)
next
  case True
  let ?s1 = "s\<lparr>markers := markers s @ [TRANSACTION_ABORTED (sort (tx_touched s)) (tx_messages s)]\<rparr>"
  show ?thesis
  proof (cases rule: call_cases [of K ?s1 AbortTransaction])
    case returned
    with assms True show ?thesis
      by (auto simp: tx_abort_def bindC_def gets_def tryC_def finallyC_def tx_reset_def modify_def ret_def)
  next
    case (raised e)
    let ?s2 = "?s1\<lparr>trace := trace ?s1 @ [(AbortTransaction, Some e)]\<rparr>"
    obtain r' where "(case e of KafkaException _ _ \<Rightarrow> raise_if_fenced tid e | _ \<Rightarrow> raise e) ?s2 = (r', ?s2)"
      using abort_handler_run [of e tid ?s2] by blast
    with raised assms True show ?thesis
      by (cases r')
        (auto simp: tx_abort_def bindC_def gets_def tryC_def finallyC_def tx_reset_def modify_def ret_def)
  qed
qed

interpretation transactional: commit_strategy "tx_note K tid" "tx_maybe_commit K c tid" "tx_abort K tid"
  trace "\<lambda>s. set (tx_offsets s)" for K tid c
proof unfold_locales
  fix m and s :: "('a, 'b) process_scheme"
  show "submitted (trace (snd (tx_note K tid m s))) \<union> set (tx_offsets (snd (tx_note K tid m s)))
      \<subseteq> insert (resume_point m) (submitted (trace s) \<union> set (tx_offsets s))"
    using tx_note_run [of K tid m s] by auto
  show "submitted (trace (snd (tx_maybe_commit K c tid s))) \<union> set (tx_offsets (snd (tx_maybe_commit K c tid s)))
      \<subseteq> submitted (trace s) \<union> set (tx_offsets s)"
    by (rule tx_maybe_commit_run)
  fix why
  show "submitted (trace (snd (tx_abort K tid why s))) = submitted (trace s)"
    and "set (tx_offsets (snd (tx_abort K tid why s))) \<subseteq> set (tx_offsets s)"
    using tx_abort_run [of K tid why s] by (metis surjective_pairing)+
qed

end
