(* ===== verification/Datetimes.thy ===== *)
theory Datetimes
  imports Json_Values "HOL-Library.Monad_Syntax"
begin

text \<open>
  The part of Python's \<^verbatim>\<open>datetime\<close> the retry path uses: \<^verbatim>\<open>utc_now() + timedelta(seconds=s)\<close>,
  \<^verbatim>\<open>isoformat()\<close> of an aware UTC datetime, and \<^verbatim>\<open>datetime.fromisoformat\<close>. A UTC datetime is
  microseconds since 1970-01-01; the calendar is the proleptic Gregorian one, computed as CPython's
  \<^verbatim>\<open>_ord2ymd\<close> does, for the years 1 to 9999 a datetime can hold (\<open>in_range\<close>). The parser accepts
  the extended format \<^verbatim>\<open>YYYY-MM-DD?HH:MM:SS[.ffffff][Z|+HH:MM|-HH:MM]\<close>, which is what
  \<^verbatim>\<open>isoformat\<close> writes; without an offset the result is naive.
\<close>

datatype parsed_datetime = Aware datetime | Naive int

abbreviation us_per_day :: int where "us_per_day \<equiv> 86400000000"

text \<open>Days from 0001-01-01 to 1970-01-01.\<close>

abbreviation epoch_days :: int where "epoch_days \<equiv> 719162"

definition is_leap :: "int \<Rightarrow> bool" where
  "is_leap y \<longleftrightarrow> y mod 4 = 0 \<and> (y mod 100 \<noteq> 0 \<or> y mod 400 = 0)"

definition month_lengths :: "bool \<Rightarrow> int list" where
  "month_lengths leap =
     [31, if leap then 29 else 28, 31, 30, 31, 30, 31, 31, 30, 31, 30, 31]"

definition days_before_year :: "int \<Rightarrow> int" where
  "days_before_year y = (y - 1) * 365 + (y - 1) div 4 - (y - 1) div 100 + (y - 1) div 400"

definition days_before_month :: "bool \<Rightarrow> int \<Rightarrow> int" where
  "days_before_month leap m = sum_list (take (nat (m - 1)) (month_lengths leap))"

text \<open>Days since 0001-01-01 of a calendar date, and back.\<close>

fun days_of_date :: "int \<times> int \<times> int \<Rightarrow> int" where
  "days_of_date (y, m, d) = days_before_year y + days_before_month (is_leap y) m + d - 1"

fun month_day :: "int \<Rightarrow> int list \<Rightarrow> int \<Rightarrow> int \<times> int" where
  "month_day m [] r = (m, r + 1)"
| "month_day m (l # ls) r = (if r < l then (m, r + 1) else month_day (m + 1) ls (r - l))"

definition date_of_days :: "int \<Rightarrow> int \<times> int \<times> int" where
  "date_of_days n =
     (let n400 = n div 146097; r = n mod 146097;
          n100 = r div 36524; r = r mod 36524;
          n4 = r div 1461; r = r mod 1461;
          n1 = r div 365; r = r mod 365;
          y = n400 * 400 + 1 + n100 * 100 + n4 * 4 + n1
      in if n1 = 4 \<or> n100 = 4 then (y - 1, 12, 31)
         else (let (m, d) = month_day 1 (month_lengths (is_leap y)) r in (y, m, d)))"

definition tens :: "int \<Rightarrow> char" where
  "tens n = digit_char (nat (n div 10 mod 10))"

definition ones :: "int \<Rightarrow> char" where
  "ones n = digit_char (nat (n mod 10))"

definition two_digits :: "int \<Rightarrow> string" where
  "two_digits n = [tens n, ones n]"

text \<open>\<^verbatim>\<open>dt.isoformat()\<close>: the microseconds are left out when they are zero.\<close>

definition isoformat :: "datetime \<Rightarrow> string" where
  "isoformat t =
     (let (y, m, d) = date_of_days (t div us_per_day + epoch_days);
          r = t mod us_per_day;
          us = r mod 1000000; s = r div 1000000
      in two_digits (y div 100) @ two_digits (y mod 100) @ ''-'' @ two_digits m @ ''-'' @
         two_digits d @ ''T'' @
         two_digits (s div 3600) @ '':'' @ two_digits (s div 60 mod 60) @ '':'' @
         two_digits (s mod 60) @
         (if us = 0 then []
          else ''.'' @ two_digits (us div 10000) @ two_digits (us div 100 mod 100) @
               two_digits (us mod 100)) @
         ''+00:00'')"

definition read2 :: "char \<Rightarrow> char \<Rightarrow> int option" where
  "read2 a b =
     (if is_digit a \<and> is_digit b then Some (int (10 * digit_value a + digit_value b)) else None)"

fun read_offset :: "string \<Rightarrow> int option option" where
  "read_offset [] = Some None"
| "read_offset [z] = (if z = CHR ''Z'' then Some (Some 0) else None)"
| "read_offset [s, a, b, c, e, f] =
     (if c \<noteq> CHR '':'' then None
      else do {
        h \<leftarrow> read2 a b;
        m \<leftarrow> read2 e f;
        if 23 < h \<or> 59 < m then None
        else if s = CHR ''+'' then Some (Some (h * 60 + m))
        else if s = CHR ''-'' then Some (Some (- (h * 60 + m)))
        else None })"
| "read_offset _ = None"

fun read_micros :: "string \<Rightarrow> (int \<times> string) option" where
  "read_micros (p # a # b # c # d # e # f # rest) =
     (if p \<noteq> CHR ''.'' then Some (0, p # a # b # c # d # e # f # rest)
      else do {
        x \<leftarrow> read2 a b;
        y \<leftarrow> read2 c d;
        z \<leftarrow> read2 e f;
        Some (x * 10000 + y * 100 + z, rest) })"
| "read_micros s = Some (0, s)"

text \<open>The clock fields from \<^verbatim>\<open>HH:MM:SS\<close>, in seconds.\<close>

fun read_clock :: "string \<Rightarrow> (int \<times> string) option" where
  "read_clock (a # b # p # c # d # q # e # f # rest) =
     (if p \<noteq> CHR '':'' \<or> q \<noteq> CHR '':'' then None
      else do {
        h \<leftarrow> read2 a b;
        m \<leftarrow> read2 c d;
        s \<leftarrow> read2 e f;
        if 23 < h \<or> 59 < m \<or> 59 < s then None else Some (h * 3600 + m * 60 + s, rest) })"
| "read_clock _ = None"

text \<open>The date, in days since 0001-01-01, and what follows the separator.\<close>

fun read_date :: "string \<Rightarrow> (int \<times> string) option" where
  "read_date (a # b # c # d # p # e # f # q # g # h # sep # rest) =
     (if p \<noteq> CHR ''-'' \<or> q \<noteq> CHR ''-'' then None
      else do {
        y1 \<leftarrow> read2 a b;
        y2 \<leftarrow> read2 c d;
        m \<leftarrow> read2 e f;
        day \<leftarrow> read2 g h;
        let y = y1 * 100 + y2;
        if y < 1 \<or> m < 1 \<or> 12 < m \<or> day < 1 \<or> month_lengths (is_leap y) ! nat (m - 1) < day then None
        else Some (days_of_date (y, m, day), rest) })"
| "read_date _ = None"

definition fromisoformat :: "string \<Rightarrow> parsed_datetime option" where
  "fromisoformat s = do {
     (days, s1) \<leftarrow> read_date s;
     (secs, s2) \<leftarrow> read_clock s1;
     (us, s3) \<leftarrow> read_micros s2;
     off \<leftarrow> read_offset s3;
     let t = (days - epoch_days) * us_per_day + secs * 1000000 + us;
     Some (case off of None \<Rightarrow> Naive t | Some m \<Rightarrow> Aware (t - m * 60000000)) }"

definition in_range :: "datetime \<Rightarrow> bool" where
  "in_range t \<longleftrightarrow> 0 \<le> t div us_per_day + epoch_days \<and> t div us_per_day + epoch_days < 3652059"

text \<open>\<^verbatim>\<open>timedelta(seconds=s)\<close> in microseconds, rounding half to even.\<close>

definition timedelta_us :: "rat \<Rightarrow> int" where
  "timedelta_us s =
     (let x = s * 1000000; f = \<lfloor>x\<rfloor>; r = x - of_int f
      in if r < 1 / 2 then f else if 1 / 2 < r then f + 1 else if even f then f else f + 1)"

section \<open>Lemmas\<close>

lemma month_day_correct:
  assumes "month_day m ls r = (m', d)" and "0 \<le> r" and "r < sum_list ls"
  shows "m \<le> m' \<and> nat (m' - m) < length ls \<and> sum_list (take (nat (m' - m)) ls) + d - 1 = r
         \<and> 1 \<le> d \<and> d \<le> ls ! nat (m' - m)"
  using assms
proof (induction m ls r rule: month_day.induct)
  case (1 m r)
  then show ?case by simp
next
  case (2 m l ls r)
  show ?case
  proof (cases "r < l")
    case True
    with 2 show ?thesis by auto
  next
    case False
    with 2 have IH: "m + 1 \<le> m' \<and> nat (m' - (m + 1)) < length ls
        \<and> sum_list (take (nat (m' - (m + 1))) ls) + d - 1 = r - l
        \<and> 1 \<le> d \<and> d \<le> ls ! nat (m' - (m + 1))" by simp
    have "nat (m' - m) = Suc (nat (m' - (m + 1)))" using IH by linarith
    with IH show ?thesis by simp
  qed
qed

lemma sum_month_lengths: "sum_list (month_lengths l) = (if l then 366 else 365)"
  by (simp add: month_lengths_def)

lemma length_month_lengths [simp]: "length (month_lengths l) = 12"
  by (simp add: month_lengths_def)

lemma month_lengths_small: "i < 12 \<Longrightarrow> month_lengths l ! i \<le> 31"
  by (auto simp: month_lengths_def less_Suc_eq numeral_eq_Suc)

text \<open>The year arithmetic: a year counted in whole cycles of 400, 100, 4 and 1.\<close>

lemma days_before_year_cycles:
  assumes "0 \<le> b" "b \<le> 3" "0 \<le> c" "c \<le> 24" "0 \<le> d" "d \<le> 3"
  shows "days_before_year (a * 400 + 1 + b * 100 + c * 4 + d)
         = 146097 * a + 36524 * b + 1461 * c + 365 * d"
proof -
  let ?z = "a * 400 + b * 100 + c * 4 + d"
  have "?z div 4 = 100 * a + 25 * b + c"
    by (rule int_div_pos_eq [where r = d]) (use assms in auto)
  moreover have "?z div 100 = 4 * a + b"
    by (rule int_div_pos_eq [where r = "c * 4 + d"]) (use assms in auto)
  moreover have "?z div 400 = a"
    by (rule int_div_pos_eq [where r = "b * 100 + c * 4 + d"]) (use assms in auto)
  ultimately show ?thesis by (simp add: days_before_year_def algebra_simps)
qed

lemma leap_after_cycle:
  assumes "0 \<le> b" "b \<le> 3" "0 \<le> c" "c \<le> 23"
  shows "is_leap (a * 400 + b * 100 + c * 4 + 4)"
proof -
  let ?y = "a * 400 + b * 100 + c * 4 + 4"
  have "?y mod 4 = 0" by presburger
  moreover have "?y mod 100 = c * 4 + 4"
    by (rule int_mod_pos_eq [where q = "a * 4 + b"]) (use assms in auto)
  ultimately show ?thesis using assms by (auto simp: is_leap_def)
qed

lemma leap_after_400: "is_leap (a * 400 + 400)"
proof -
  have "(a * 400 + 400) mod 4 = 0" by presburger
  moreover have "(a * 400 + 400) mod 400 = 0" by presburger
  ultimately show ?thesis by (simp add: is_leap_def)
qed

lemma dec_31: "days_before_month True 12 = 335"
  by (simp add: days_before_month_def month_lengths_def)

text \<open>A day number split into its cycles, with the bounds the remainders give.\<close>

definition cycles :: "int \<Rightarrow> int \<Rightarrow> int \<Rightarrow> int \<Rightarrow> int \<Rightarrow> int \<Rightarrow> bool" where
  "cycles n a b c d r \<longleftrightarrow>
     n = 146097 * a + 36524 * b + 1461 * c + 365 * d + r \<and>
     146097 * a \<le> n \<and> n < 146097 * a + 146097 \<and>
     0 \<le> b \<and> b \<le> 4 \<and> 0 \<le> c \<and> c \<le> 24 \<and> 0 \<le> d \<and> d \<le> 4 \<and> 0 \<le> r \<and> r < 365 \<and>
     (b = 4 \<longrightarrow> c = 0 \<and> d = 0 \<and> r = 0) \<and> (d = 4 \<longrightarrow> r = 0 \<and> c \<le> 23 \<and> b \<le> 3)"

lemma cycles_split:
  assumes "n = 146097 * a + r1" "0 \<le> r1" "r1 < 146097"
    and "r1 = 36524 * b + r2" "0 \<le> r2" "r2 < 36524"
    and "r2 = 1461 * c + r3" "0 \<le> r3" "r3 < 1461"
    and "r3 = 365 * d + r" "0 \<le> r" "r < 365"
  shows "cycles n a b c d r"
proof -
  have bs: "0 \<le> b" "b \<le> 4" "0 \<le> c" "c \<le> 24" "0 \<le> d" "d \<le> 4" using assms by linarith+
  have b4: "c = 0 \<and> d = 0 \<and> r = 0" if "b = 4"
  proof -
    have "r2 \<le> 0" using that assms by linarith
    with assms bs show ?thesis by linarith
  qed
  have "r = 0 \<and> c \<le> 23 \<and> b \<le> 3" if "d = 4"
  proof -
    have "r = 0" using that assms by linarith
    moreover have "c \<le> 23" using that assms by linarith
    moreover have "b \<noteq> 4" using that b4 by auto
    ultimately show ?thesis using bs by linarith
  qed
  with b4 bs assms show ?thesis unfolding cycles_def by linarith
qed

lemma cycles_divmod:
  "cycles n (n div 146097) (n mod 146097 div 36524) (n mod 146097 mod 36524 div 1461)
     (n mod 146097 mod 36524 mod 1461 div 365) (n mod 146097 mod 36524 mod 1461 mod 365)"
  by (rule cycles_split [where ?r1.0 = "n mod 146097" and ?r2.0 = "n mod 146097 mod 36524"
        and ?r3.0 = "n mod 146097 mod 36524 mod 1461"]) simp_all

lemma date_of_days_cycles:
  obtains a b c d r where "cycles n a b c d r"
    and "date_of_days n =
      (let y = a * 400 + 1 + b * 100 + c * 4 + d
       in if d = 4 \<or> b = 4 then (y - 1, 12, 31)
          else (let (m, d) = month_day 1 (month_lengths (is_leap y)) r in (y, m, d)))"
  by (rule that [OF cycles_divmod [of n]]) (simp only: date_of_days_def Let_def)

lemma date_of_days_correct:
  assumes "date_of_days n = (y, m, d)"
  shows "days_of_date (y, m, d) = n \<and> 1 \<le> m \<and> m \<le> 12 \<and> 1 \<le> d
         \<and> d \<le> month_lengths (is_leap y) ! nat (m - 1)"
proof -
  obtain n400 n100 n4 n1 r where cyc: "cycles n n400 n100 n4 n1 r"
    and dn: "date_of_days n =
      (let y = n400 * 400 + 1 + n100 * 100 + n4 * 4 + n1
       in if n1 = 4 \<or> n100 = 4 then (y - 1, 12, 31)
          else (let (m, d) = month_day 1 (month_lengths (is_leap y)) r in (y, m, d)))"
    by (rule date_of_days_cycles)
  have n: "n = 146097 * n400 + 36524 * n100 + 1461 * n4 + 365 * n1 + r"
    and n': "146097 * n400 \<le> n" "n < 146097 * n400 + 146097"
    and bs: "0 \<le> n100" "0 \<le> n4" "0 \<le> n1" "0 \<le> r" "r < 365" "n100 \<le> 4" "n4 \<le> 24" "n1 \<le> 4"
    and b4: "n100 = 4 \<Longrightarrow> n4 = 0 \<and> n1 = 0 \<and> r = 0"
    and d4: "n1 = 4 \<Longrightarrow> r = 0 \<and> n4 \<le> 23 \<and> n100 \<le> 3"
    using cyc unfolding cycles_def by blast+
  let ?y = "n400 * 400 + 1 + n100 * 100 + n4 * 4 + n1"
  have date: "(y, m, d) = (if n1 = 4 \<or> n100 = 4 then (?y - 1, 12, 31)
      else (let (m, d) = month_day 1 (month_lengths (is_leap ?y)) r in (?y, m, d)))"
    using assms dn by (simp add: Let_def)
  consider "n1 = 4" | "n1 \<noteq> 4" "n100 = 4" | "n1 \<noteq> 4" "n100 \<noteq> 4" by blast
  then show ?thesis
  proof cases
    case 1
    note d4 = d4 [OF 1]
    have y: "y = n400 * 400 + n100 * 100 + n4 * 4 + 4" "m = 12" "d = 31" using date 1 by auto
    have "days_before_year (n400 * 400 + 1 + n100 * 100 + n4 * 4 + 3)
        = 146097 * n400 + 36524 * n100 + 1461 * n4 + 365 * 3"
      by (rule days_before_year_cycles) (use bs d4 in auto)
    moreover have "is_leap y" using leap_after_cycle bs d4 y(1) by simp
    ultimately show ?thesis using y n 1 d4 dec_31 by (simp add: algebra_simps month_lengths_def)
  next
    case 2
    note b4 = b4 [OF 2(2)]
    have y: "y = n400 * 400 + 400" "m = 12" "d = 31" using date 2 b4 by auto
    have "days_before_year (n400 * 400 + 1 + 3 * 100 + 24 * 4 + 3)
        = 146097 * n400 + 36524 * 3 + 1461 * 24 + 365 * 3"
      by (rule days_before_year_cycles) auto
    moreover have "is_leap y" using leap_after_400 y(1) by simp
    ultimately show ?thesis using y n 2 b4 dec_31 by (simp add: algebra_simps month_lengths_def)
  next
    case 3
    have y: "y = ?y" and md: "month_day 1 (month_lengths (is_leap ?y)) r = (m, d)"
      using date 3 by (auto split: prod.splits)
    have "days_before_year ?y = 146097 * n400 + 36524 * n100 + 1461 * n4 + 365 * n1"
      by (rule days_before_year_cycles) (use bs 3 in auto)
    moreover have "r < sum_list (month_lengths (is_leap ?y))"
      using bs by (simp add: sum_month_lengths)
    note month_day_correct [OF md bs(4) this]
    ultimately show ?thesis using y n by (auto simp: days_before_month_def)
  qed
qed

lemma date_of_days_year:
  assumes "date_of_days n = (y, m, d)" and "0 \<le> n" and "n < 3652059"
  shows "1 \<le> y \<and> y \<le> 9999"
proof -
  obtain n400 n100 n4 n1 r where cyc: "cycles n n400 n100 n4 n1 r"
    and dn: "date_of_days n =
      (let y = n400 * 400 + 1 + n100 * 100 + n4 * 4 + n1
       in if n1 = 4 \<or> n100 = 4 then (y - 1, 12, 31)
          else (let (m, d) = month_day 1 (month_lengths (is_leap y)) r in (y, m, d)))"
    by (rule date_of_days_cycles)
  have n: "n = 146097 * n400 + 36524 * n100 + 1461 * n4 + 365 * n1 + r"
    and n': "146097 * n400 \<le> n" "n < 146097 * n400 + 146097"
    and bs: "0 \<le> n100" "0 \<le> n4" "0 \<le> n1" "0 \<le> r" "r < 365" "n100 \<le> 4" "n4 \<le> 24" "n1 \<le> 4"
    and b4: "n100 = 4 \<Longrightarrow> n4 = 0 \<and> n1 = 0 \<and> r = 0"
    and d4: "n1 = 4 \<Longrightarrow> r = 0 \<and> n4 \<le> 23 \<and> n100 \<le> 3"
    using cyc unfolding cycles_def by blast+
  let ?y = "n400 * 400 + 1 + n100 * 100 + n4 * 4 + n1"
  have y: "y = (if n1 = 4 \<or> n100 = 4 then ?y - 1 else ?y)"
    using assms(1) dn by (auto simp: Let_def split: if_splits prod.splits)
  have "0 \<le> n400" using assms(2) n' by linarith
  then have "1 \<le> y" using y bs d4 b4 by auto
  moreover have "y \<le> 9999"
  proof (cases "n400 \<le> 23")
    case True
    then show ?thesis using y bs by (auto split: if_splits)
  next
    case False
    have a: "n400 = 24" using False n' assms(3) by linarith
    have b: "n100 \<le> 3" using a n bs assms(3) by linarith
    show ?thesis
    proof (cases "n100 = 3 \<and> n4 = 24")
      case True
      then have "n1 \<le> 2" using a n bs assms(3) by linarith
      with a True y show ?thesis by auto
    next
      case False
      then have "n100 * 100 + n4 * 4 \<le> 392" using b bs by linarith
      with a y bs show ?thesis by (auto split: if_splits)
    qed
  qed
  ultimately show ?thesis by blast
qed

lemma read2_two_digits [simp]:
  assumes "0 \<le> n" and "n < 100"
  shows "read2 (tens n) (ones n) = Some n"
proof -
  have 1: "n div 10 mod 10 = n div 10" "0 \<le> n div 10" "n div 10 < 10" "0 \<le> n mod 10" "n mod 10 < 10"
    using assms by auto
  have "int (10 * nat (n div 10) + nat (n mod 10)) = 10 * (n div 10) + n mod 10"
    using 1 by simp
  also have "\<dots> = n" by simp
  finally show ?thesis using 1 by (simp add: read2_def tens_def ones_def)
qed

lemma read_micros_write:
  assumes "0 \<le> us" and "us < 1000000"
  shows "read_micros ((if us = 0 then [] else ''.'' @ two_digits (us div 10000) @
           two_digits (us div 100 mod 100) @ two_digits (us mod 100)) @ ''+00:00'')
         = Some (us, ''+00:00'')"
proof -
  have "us div 10000 = us div 100 div 100" by (simp add: zdiv_zmult2_eq [symmetric])
  then have "us div 10000 * 10000 + us div 100 mod 100 * 100 + us mod 100 = us"
    using div_mult_mod_eq [of us 100] div_mult_mod_eq [of "us div 100" 100] by linarith
  moreover have "us div 10000 < 100" "0 \<le> us div 10000" using assms by auto
  ultimately show ?thesis by (simp add: two_digits_def)
qed

lemma read_clock_write:
  assumes "0 \<le> s" and "s < 86400"
  shows "read_clock (two_digits (s div 3600) @ '':'' @ two_digits (s div 60 mod 60) @ '':'' @
           two_digits (s mod 60) @ rest) = Some (s, rest)"
proof -
  have "s div 3600 = s div 60 div 60" by (simp add: zdiv_zmult2_eq [symmetric])
  then have "s div 3600 * 3600 + s div 60 mod 60 * 60 + s mod 60 = s"
    using div_mult_mod_eq [of s 60] div_mult_mod_eq [of "s div 60" 60] by linarith
  moreover have "s div 3600 < 24" "0 \<le> s div 3600" using assms by auto
  moreover have "\<not> 59 < s div 60 mod 60" "\<not> 59 < s mod 60"
    using pos_mod_bound [of 60 s] pos_mod_bound [of 60 "s div 60"] by linarith+
  ultimately show ?thesis by (simp add: two_digits_def)
qed

lemma read_date_write:
  assumes "date_of_days n = (y, m, d)" and "0 \<le> n" and "n < 3652059"
  shows "read_date (two_digits (y div 100) @ two_digits (y mod 100) @ ''-'' @ two_digits m @ ''-'' @
           two_digits d @ ''T'' @ rest) = Some (n, rest)"
proof -
  have y: "1 \<le> y" "y \<le> 9999" using date_of_days_year [OF assms] by auto
  have m: "days_of_date (y, m, d) = n" "1 \<le> m" "m \<le> 12" "1 \<le> d"
    "d \<le> month_lengths (is_leap y) ! nat (m - 1)"
    using date_of_days_correct [OF assms(1)] by auto
  have "d \<le> 31" using m month_lengths_small [of "nat (m - 1)" "is_leap y"] by linarith
  moreover have "y div 100 * 100 + y mod 100 = y" by simp
  moreover have "0 \<le> y div 100" "y div 100 < 100" "0 \<le> y mod 100" "y mod 100 < 100" using y by auto
  ultimately show ?thesis using y m by (simp add: two_digits_def Let_def)
qed

lemma fromisoformat_isoformat:
  assumes "in_range t"
  shows "fromisoformat (isoformat t) = Some (Aware t)"
proof -
  let ?n = "t div us_per_day + epoch_days" and ?r = "t mod us_per_day"
  obtain y m d where ymd: "date_of_days ?n = (y, m, d)" by (metis prod_cases3)
  have "0 \<le> ?n" "?n < 3652059" using assms by (auto simp: in_range_def)
  note date = read_date_write [OF ymd this]
  have "0 \<le> ?r div 1000000" "?r div 1000000 < 86400" by auto
  note clock = read_clock_write [OF this]
  have "0 \<le> ?r mod 1000000" "?r mod 1000000 < 1000000" by auto
  note micros = read_micros_write [OF this]
  have "(?n - epoch_days) * us_per_day + ?r div 1000000 * 1000000 + ?r mod 1000000 = t" by simp
  moreover have "read_offset ''+00:00'' = Some (Some 0)"
    by (simp add: read2_def is_digit_def digit_value_def)
  ultimately show ?thesis
    by (simp only: fromisoformat_def isoformat_def ymd Let_def prod.case date clock micros
        bind.bind_lunit option.case mult_zero_left diff_zero)
qed

end
