(* ===== verification/Failure_Routing.thy ===== *)
theory Failure_Routing
  imports Kafka_Client Events Datetimes
begin

text \<open>
  \<^verbatim>\<open>src/order_service/consumer/errors.py\<close>, \<^verbatim>\<open>failures.py\<close> and \<^verbatim>\<open>dlq.py\<close>: what kind of
  failure an exception is, the lever that makes handlers fail on purpose, and the router that moves
  a failed message to the retry topic, the dead-letter topic or back to its source. A router's
  publication is a produce call followed (at least once) by a flush; it succeeds only with the
  delivery report of its own record. Seconds inside error texts are left out.
\<close>

section \<open>Classification (errors.py)\<close>

datatype failure_kind = RetryableKind | NonRetryableKind

definition classify :: "exn \<Rightarrow> failure_kind" where
  "classify e = (case e of NonRetryableError _ \<Rightarrow> NonRetryableKind | _ \<Rightarrow> RetryableKind)"

section \<open>The failure lever (failures.py)\<close>

definition maybe_fail :: "settings \<Rightarrow> lifecycle_event \<Rightarrow> int \<Rightarrow> exn option" where
  "maybe_fail c event attempt =
     (if handler_failure_mode c = NO_FAILURE then None
      else let targeted = failing_orders c in
        if targeted \<noteq> [] \<and> ev_order_id event \<notin> set targeted then None
        else if handler_failure_mode c = POISON then
          Some (NonRetryableError (''HANDLER_FAILURE_MODE=poison: '' @ ev_order_id event @ '' seq '' @
            py_str (ev_sequence event) @ '' can never be processed''))
        else if attempt \<le> handler_failure_attempts c then
          Some (RetryableError (''HANDLER_FAILURE_MODE=transient: '' @ ev_order_id event @ '' seq '' @
            py_str (ev_sequence event) @ '' failed attempt '' @ py_str attempt @ '' of '' @
            py_str (handler_failure_attempts c)))
        else None)"

section \<open>Headers and provenance (dlq.py)\<close>

abbreviation HDR_SERVICE :: string where "HDR_SERVICE \<equiv> ''x-service''"
abbreviation HDR_CONSUMER_GROUP :: string where "HDR_CONSUMER_GROUP \<equiv> ''x-consumer-group''"
abbreviation HDR_ORIGINAL_TOPIC :: string where "HDR_ORIGINAL_TOPIC \<equiv> ''x-original-topic''"
abbreviation HDR_ORIGINAL_PARTITION :: string where "HDR_ORIGINAL_PARTITION \<equiv> ''x-original-partition''"
abbreviation HDR_ORIGINAL_OFFSET :: string where "HDR_ORIGINAL_OFFSET \<equiv> ''x-original-offset''"
abbreviation HDR_ORIGINAL_TIMESTAMP :: string where "HDR_ORIGINAL_TIMESTAMP \<equiv> ''x-original-timestamp''"
abbreviation HDR_ATTEMPT :: string where "HDR_ATTEMPT \<equiv> ''x-attempt''"
abbreviation HDR_RETRY_TARGET :: string where "HDR_RETRY_TARGET \<equiv> ''x-retry-target''"
abbreviation HDR_RETRY_AT :: string where "HDR_RETRY_AT \<equiv> ''x-retry-at''"
abbreviation HDR_ATTEMPTS_MADE :: string where "HDR_ATTEMPTS_MADE \<equiv> ''x-attempts-made''"
abbreviation HDR_ERROR_CLASS :: string where "HDR_ERROR_CLASS \<equiv> ''x-error-class''"
abbreviation HDR_ERROR_MESSAGE :: string where "HDR_ERROR_MESSAGE \<equiv> ''x-error-message''"
abbreviation HDR_FAILED_AT :: string where "HDR_FAILED_AT \<equiv> ''x-failed-at''"

abbreviation MAX_ERROR_CHARS :: nat where "MAX_ERROR_CHARS \<equiv> 500"

type_synonym headers = "string \<rightharpoonup> string"

definition decode_header :: "headers \<Rightarrow> string \<times> bytes option \<Rightarrow> headers" where
  "decode_header d h =
     (case snd h of
        None \<Rightarrow> d
      | Some b \<Rightarrow> (case utf8_decode b of None \<Rightarrow> d | Some v \<Rightarrow> d(fst h \<mapsto> v)))"

definition decode_headers :: "message \<Rightarrow> headers" where
  "decode_headers m = foldl decode_header Map.empty (m_headers m)"

definition message_timestamp :: "message \<Rightarrow> string" where
  "message_timestamp m =
     (case m_timestamp m of
        None \<Rightarrow> ''unknown''
      | Some ms \<Rightarrow> if ms \<le> 0 then ''unknown'' else isoformat (1000 * ms))"

record origin =
  og_topic :: string
  og_partition :: int
  og_offset :: int
  og_timestamp :: string

definition origin_from_message :: "message \<Rightarrow> origin" where
  "origin_from_message m =
     \<lparr>og_topic = str_or (Some (m_topic m)) ''unknown'', og_partition = m_partition m,
      og_offset = m_offset m, og_timestamp = message_timestamp m\<rparr>"

definition int_header :: "headers \<Rightarrow> string \<Rightarrow> exn + int" where
  "int_header hs name =
     (case hs name of
        None \<Rightarrow> Inr (-1)
      | Some v \<Rightarrow> (case py_int v of
            None \<Rightarrow> Inl (ValueError (''invalid literal for int() with base 10: '' @
              apostrophe @ v @ apostrophe))
          | Some n \<Rightarrow> Inr n))"

definition origin_from_headers :: "headers \<Rightarrow> message \<Rightarrow> exn + origin" where
  "origin_from_headers hs m =
     (case hs HDR_ORIGINAL_TOPIC of
        None \<Rightarrow> Inr (origin_from_message m)
      | Some t \<Rightarrow>
          (case int_header hs HDR_ORIGINAL_PARTITION of
             Inl e \<Rightarrow> Inl e
           | Inr p \<Rightarrow>
               (case int_header hs HDR_ORIGINAL_OFFSET of
                  Inl e \<Rightarrow> Inl e
                | Inr off \<Rightarrow>
                    Inr \<lparr>og_topic = t, og_partition = p, og_offset = off,
                         og_timestamp = (case hs HDR_ORIGINAL_TIMESTAMP of
                           None \<Rightarrow> ''unknown'' | Some x \<Rightarrow> x)\<rparr>)))"

text \<open>U+2026, the ellipsis a truncated text ends with.\<close>

definition ellipsis :: string where
  "ellipsis = [char_of (226 :: nat), char_of (128 :: nat), char_of (166 :: nat)]"

definition newline :: char where
  "newline = char_of (10 :: nat)"

definition describe_error :: "exn \<Rightarrow> string \<times> string" where
  "describe_error e =
     (let stripped = strip (map (\<lambda>c. if c = newline then CHR '' '' else c) (exn_text e));
          text = (if stripped = [] then ''<no message>'' else stripped)
      in (exn_class e,
          if code_points text > MAX_ERROR_CHARS
          then take_code_points MAX_ERROR_CHARS text @ ellipsis else text))"

section \<open>The router (dlq.py)\<close>

definition provenance :: "origin \<Rightarrow> string \<Rightarrow> string \<Rightarrow> (string \<times> string) list" where
  "provenance og service group_id =
     [(HDR_SERVICE, service),
      (HDR_CONSUMER_GROUP, group_id),
      (HDR_ORIGINAL_TOPIC, og_topic og),
      (HDR_ORIGINAL_PARTITION, py_str (og_partition og)),
      (HDR_ORIGINAL_OFFSET, py_str (og_offset og)),
      (HDR_ORIGINAL_TIMESTAMP, og_timestamp og)]"

definition router_publish ::
    "kafka \<Rightarrow> settings \<Rightarrow> string \<Rightarrow> message \<Rightarrow> (string \<times> string) list \<Rightarrow>
     ('x client_scheme, unit) comp" where
  "router_publish K c topic m hdrs =
     bindC (gets (\<lambda>s. length (trace s))) (\<lambda>i.
     thenC (tryC (call K (Produce ByRouter topic (m_key m) (m_value m) hdrs))
              (\<lambda>e. case e of
                     BufferError t \<Rightarrow>
                       raise (FailurePublishFailed (''could not enqueue for '' @ topic @ '': '' @ t))
                   | KafkaException n t \<Rightarrow>
                       raise (FailurePublishFailed (''could not enqueue for '' @ topic @ '': '' @ t))
                   | _ \<Rightarrow> raise e))
     (if exactly_once c then ret ()
      else bindC (producer_flush K) (\<lambda>(remaining, reports).
        case map_of reports i of
          None \<Rightarrow> raise (FailurePublishFailed (''no delivery report from '' @ topic))
        | Some d \<Rightarrow>
            if remaining \<noteq> 0
            then raise (FailurePublishFailed (''no delivery report from '' @ topic))
            else (case d of
                    Inl err \<Rightarrow> raise (FailurePublishFailed (topic @ '' rejected the message: '' @ err))
                  | Inr _ \<Rightarrow> ret ()))))"

definition to_retry ::
    "kafka \<Rightarrow> settings \<Rightarrow> message \<Rightarrow> origin \<Rightarrow> string \<Rightarrow> string \<Rightarrow> int \<Rightarrow> exn \<Rightarrow>
     ('x client_scheme, datetime) comp" where
  "to_retry K c m og service group_id attempt error =
     (case backoff_for_attempt c attempt of
        None \<Rightarrow> raise (ValueError ''could not convert string to float'')
      | Some backoff \<Rightarrow>
          bindC (gets (\<lambda>s. k_now K (trace s))) (\<lambda>now.
          let due = now + timedelta_us backoff in
          if \<not> in_range due then raise (OtherError ''OverflowError'' ''date value out of range'')
          else thenC (router_publish K c (retry_topic c) m
            (provenance og service group_id @
             [(HDR_ATTEMPT, py_str attempt),
              (HDR_RETRY_AT, isoformat due),
              (HDR_ERROR_CLASS, fst (describe_error error)),
              (HDR_ERROR_MESSAGE, snd (describe_error error)),
              (HDR_FAILED_AT, isoformat now)]))
            (ret due)))"

definition to_source ::
    "kafka \<Rightarrow> settings \<Rightarrow> message \<Rightarrow> origin \<Rightarrow> string \<Rightarrow> string \<Rightarrow> int \<Rightarrow>
     ('x client_scheme, string) comp" where
  "to_source K c m og service group_id attempt =
     thenC (router_publish K c (og_topic og) m
       (provenance og service group_id @
        [(HDR_ATTEMPT, py_str attempt), (HDR_RETRY_TARGET, service)]))
       (ret (og_topic og))"

definition to_dead_letter ::
    "kafka \<Rightarrow> settings \<Rightarrow> message \<Rightarrow> origin \<Rightarrow> string \<Rightarrow> string \<Rightarrow> int \<Rightarrow> exn \<Rightarrow>
     ('x client_scheme, unit) comp" where
  "to_dead_letter K c m og service group_id attempts_made error =
     bindC (gets (\<lambda>s. k_now K (trace s))) (\<lambda>now.
     router_publish K c (dlq_topic c) m
       (provenance og service group_id @
        [(HDR_ATTEMPTS_MADE, py_str attempts_made),
         (HDR_ERROR_CLASS, fst (describe_error error)),
         (HDR_ERROR_MESSAGE, snd (describe_error error)),
         (HDR_FAILED_AT, isoformat now)]))"

section \<open>Lemmas\<close>

lemma classify_iff: "classify e = NonRetryableKind \<longleftrightarrow> (\<exists>t. e = NonRetryableError t)"
  by (cases e) (simp_all add: classify_def)

lemma code_points_append [simp]: "code_points (a @ b) = code_points a + code_points b"
  by (simp add: code_points_def)

lemma describe_error_bounded: "code_points (snd (describe_error e)) \<le> MAX_ERROR_CHARS + 1"
proof -
  have "code_points ellipsis = 1"
    by (simp add: code_points_def ellipsis_def is_cont_def of_char_of)
  then show ?thesis
    using take_code_points_length [of MAX_ERROR_CHARS]
    by (auto simp: describe_error_def Let_def)
qed

text \<open>What a consumer of a published message reads: the published headers, encoded and decoded.\<close>

definition published_headers :: "(string \<times> string) list \<Rightarrow> (string \<times> bytes option) list" where
  "published_headers hs = map (\<lambda>(n, v). (n, Some v)) hs"

lemma decode_published:
  assumes "list_all (\<lambda>(n, v). utf8_valid v) hs" and "distinct (map fst hs)"
  shows "foldl decode_header d (published_headers hs) = d ++ map_of hs"
  using assms
proof (induction hs arbitrary: d)
  case Nil
  then show ?case by (simp add: published_headers_def)
next
  case (Cons h hs)
  obtain n v where h: "h = (n, v)" by (cases h)
  have "decode_header d (n, Some v) = d(n \<mapsto> v)"
    using Cons.prems by (simp add: decode_header_def utf8_decode_def h)
  then have "foldl decode_header d (published_headers (h # hs)) = (d(n \<mapsto> v)) ++ map_of hs"
    using Cons by (simp add: published_headers_def h)
  also have "\<dots> = d ++ map_of (h # hs)"
  proof -
    have "map_of hs n = None" using Cons.prems by (simp add: h map_of_eq_None_iff)
    then show ?thesis by (auto simp: h map_add_def fun_eq_iff split: option.splits)
  qed
  finally show ?case .
qed

lemma isoformat_int_header [simp]: "int_header hs n = Inr p" if "hs n = Some (py_str p)"
  using that by (simp add: int_header_def)

lemma keeps_extends_publish [keeps_rules]: "keeps extends (router_publish K c topic m hdrs)"
  unfolding router_publish_def
  by (intro keeps_rules)
    (auto intro!: keeps_rules split: exn.splits prod.splits option.splits sum.splits)

text \<open>A publication at least once returns only when its own record was acknowledged; otherwise it
  raises \<^verbatim>\<open>FailurePublishFailed\<close>. It makes a produce call and at most a flush.\<close>

lemma router_publish_at_least_once:
  fixes m :: message and topic :: string and hdrs :: "(string \<times> string) list"
  assumes K: "kafka_ok K" and alo: "\<not> exactly_once c"
  defines "p \<equiv> Produce ByRouter topic (m_key m) (m_value m) hdrs"
  obtains (acked) n pos part off where
      "router_publish K c topic m hdrs s =
         (Ok (), s\<lparr>trace := trace s @ [(p, None), (ProducerFlush, None)],
            markers := markers s @ replicate n CHANGELOG_DELIVERY_FAILED, position := pos\<rparr>)"
      and "map_of (k_reports K (trace s @ [(p, None), (ProducerFlush, None)])) (length (trace s)) =
         Some (Inr (part, off))"
      and "k_remaining K (trace s @ [(p, None), (ProducerFlush, None)]) = 0"
  | (refused) t n pos l e where
      "router_publish K c topic m hdrs s =
         (Raise (FailurePublishFailed t), s\<lparr>trace := trace s @ l,
            markers := markers s @ replicate n CHANGELOG_DELIVERY_FAILED, position := pos\<rparr>)"
      and "l = [(p, Some e)] \<or> l = [(p, None), (ProducerFlush, None)]"
proof (cases rule: call_cases [of K s p])
  case (raised e)
  from kafka_okD(3) [OF K raised(1)]
  obtain t where "router_publish K c topic m hdrs s =
      (Raise (FailurePublishFailed t), s\<lparr>trace := trace s @ [(p, Some e)]\<rparr>)"
    using raised(2) by (auto simp: router_publish_def bindC_def gets_def tryC_def raise_def p_def)
  then show ?thesis
    by (intro refused [where n = 0 and pos = "position s" and l = "[(p, Some e)]"]) simp_all
next
  case returned
  let ?s1 = "s\<lparr>trace := trace s @ [(p, None)]\<rparr>"
  let ?h = "trace s @ [(p, None), (ProducerFlush, None)]"
  obtain n pos where fl: "producer_flush K ?s1 = (Ok (k_remaining K ?h, k_reports K ?h),
      s\<lparr>trace := ?h, markers := markers s @ replicate n CHANGELOG_DELIVERY_FAILED, position := pos\<rparr>)"
    by (rule producer_flush_run [of K ?s1, OF kafka_okD(1) [OF K]]) simp
  let ?t = "s\<lparr>trace := ?h, markers := markers s @ replicate n CHANGELOG_DELIVERY_FAILED,
      position := pos\<rparr>"
  have run: "router_publish K c topic m hdrs s =
      (case map_of (k_reports K ?h) (length (trace s)) of
          None \<Rightarrow> raise (FailurePublishFailed (''no delivery report from '' @ topic))
        | Some d \<Rightarrow>
            if k_remaining K ?h \<noteq> 0
            then raise (FailurePublishFailed (''no delivery report from '' @ topic))
            else (case d of
                    Inl err \<Rightarrow> raise (FailurePublishFailed (topic @ '' rejected the message: '' @ err))
                  | Inr _ \<Rightarrow> ret ())) ?t"
    using returned(2) fl alo
    by (simp add: router_publish_def bindC_def gets_def tryC_def p_def [symmetric])
  show ?thesis
  proof (cases "\<exists>part off. map_of (k_reports K ?h) (length (trace s)) = Some (Inr (part, off))
      \<and> k_remaining K ?h = 0")
    case True
    then show ?thesis using run by (auto simp: ret_def intro: acked)
  next
    case False
    then obtain t where "router_publish K c topic m hdrs s = (Raise (FailurePublishFailed t), ?t)"
      using run by (auto simp: raise_def split: option.splits sum.splits if_splits)
    then show ?thesis by (auto intro: refused)
  qed
qed

end
