(* ===== verification/Runtime.thy ===== *)
theory Runtime
  imports Transactions Failure_Routing
begin

text \<open>
  \<^verbatim>\<open>src/order_service/consumer/runtime.py\<close>: the consume loop shared by the three services.
  \<open>consumer\<close> collects the fields of \<^verbatim>\<open>ServiceConsumer\<close> with the store and the commit strategy it was
  given; every method is a definition over it. What arrives from the group coordinator and the
  broker is a list of inputs (poll results and rebalance callbacks); \<open>consume\<close> runs the loop over
  it, \<open>run\<close> adds the clean-up of the \<^verbatim>\<open>finally\<close> clause. Sleeping and the purely informative log
  lines are left out; lines with a marker are kept.
\<close>

section \<open>Configuration\<close>

definition validate_protocol_settings :: "settings \<Rightarrow> exn option" where
  "validate_protocol_settings c =
     (let protocol = consumer_group_protocol c;
          incompatible =
            (case protocol of
               CONSUMER \<Rightarrow>
                 [(''CONSUMER_ASSIGNMENT_STRATEGY'', consumer_assignment_strategy c \<noteq> None,
                   ''use CONSUMER_REMOTE_ASSIGNOR''),
                  (''CONSUMER_SESSION_TIMEOUT_MS'', consumer_session_timeout_ms c \<noteq> None,
                   ''the session timeout is broker-side under this protocol'')]
             | CLASSIC \<Rightarrow>
                 [(''CONSUMER_REMOTE_ASSIGNOR'', consumer_remote_assignor c \<noteq> None,
                   ''use CONSUMER_ASSIGNMENT_STRATEGY'')]);
          problems = map (\<lambda>(name, _, remedy). name @ '' cannot be used with CONSUMER_GROUP_PROTOCOL='' @
              group_protocol_value protocol @ '' '' @ em_dash @ '' '' @ remedy)
            (filter (\<lambda>(_, given, _). given) incompatible)
      in if problems = [] then None
         else Some (ConsumerConfigError (concat (hd problems # map (\<lambda>p. ''; '' @ p) (tl problems)))))"

fun DEFAULT_ASSIGNOR :: "group_protocol \<Rightarrow> string" where
  "DEFAULT_ASSIGNOR CLASSIC = ''range (client default)''"
| "DEFAULT_ASSIGNOR CONSUMER = ''uniform (broker default)''"

definition assignor_in_effect :: "settings \<Rightarrow> string" where
  "assignor_in_effect c =
     str_or (case consumer_group_protocol c of
               CLASSIC \<Rightarrow> consumer_assignment_strategy c | CONSUMER \<Rightarrow> consumer_remote_assignor c)
       (DEFAULT_ASSIGNOR (consumer_group_protocol c))"

definition opt_entry :: "string \<Rightarrow> ('a \<Rightarrow> string) \<Rightarrow> 'a option \<Rightarrow> (string \<times> string) list" where
  "opt_entry k f v = (case v of None \<Rightarrow> [] | Some x \<Rightarrow> [(k, f x)])"

definition build_consumer_config ::
    "settings \<Rightarrow> string \<Rightarrow> string \<Rightarrow> exn + (string \<times> string) list" where
  "build_consumer_config c group_id client_id =
     (case validate_protocol_settings c of
        Some e \<Rightarrow> Inl e
      | None \<Rightarrow> Inr (
          [(''bootstrap.servers'', kafka_bootstrap_servers c),
           (''group.id'', group_id),
           (''enable.auto.commit'', ''False''),
           (''isolation.level'', isolation_level c),
           (''auto.offset.reset'', ''earliest''),
           (''client.id'', client_id),
           (''group.protocol'', group_protocol_value (consumer_group_protocol c))] @
          (case consumer_group_protocol c of
             CLASSIC \<Rightarrow>
               opt_entry ''partition.assignment.strategy'' id (consumer_assignment_strategy c) @
               opt_entry ''session.timeout.ms'' py_str (consumer_session_timeout_ms c)
           | CONSUMER \<Rightarrow> opt_entry ''group.remote.assignor'' id (consumer_remote_assignor c)) @
          opt_entry ''max.poll.interval.ms'' py_str (consumer_max_poll_interval_ms c) @
          opt_entry ''group.instance.id'' id (consumer_instance_id_static c)))"

section \<open>Folding\<close>

datatype violation_type = SEQUENCE_GAP | ILLEGAL_TRANSITION

fun violation_type_value :: "violation_type \<Rightarrow> string" where
  "violation_type_value SEQUENCE_GAP = ''SEQUENCE_GAP''"
| "violation_type_value ILLEGAL_TRANSITION = ''ILLEGAL_TRANSITION''"

record violation =
  v_type :: violation_type
  v_order_id :: string
  v_sequence :: int
  v_expected :: string
  v_observed :: string

definition as_log_fields :: "violation \<Rightarrow> string" where
  "as_log_fields v =
     ''VIOLATION type='' @ violation_type_value (v_type v) @ '' order_id='' @ v_order_id v @
     '' seq='' @ py_str (v_sequence v) @ '' expected='' @ v_expected v @ '' observed='' @ v_observed v"

definition key_of :: "message \<Rightarrow> string" where
  "key_of m =
     (case m_key m of
        None \<Rightarrow> ''<null>''
      | Some k \<Rightarrow> (case utf8_decode k of None \<Rightarrow> ''<undecodable-key>'' | Some s \<Rightarrow> s))"

definition attempt_of :: "headers \<Rightarrow> int" where
  "attempt_of hs =
     (case hs HDR_ATTEMPT of
        None \<Rightarrow> 1
      | Some v \<Rightarrow> (case py_int v of None \<Rightarrow> 1 | Some n \<Rightarrow> max 1 n))"

definition state_text :: "order_state option \<Rightarrow> string" where
  "state_text s = (case s of None \<Rightarrow> ''None'' | Some x \<Rightarrow> order_state_value x)"

definition apply_event :: "order_fold option \<Rightarrow> lifecycle_event \<Rightarrow> order_fold \<times> violation list" where
  "apply_event current event =
     (let fold = (case current of None \<Rightarrow> new_fold (ev_order_id event) | Some f \<Rightarrow> f);
          expected_sequence = f_last_sequence fold + 1;
          gap = (if ev_sequence event \<noteq> expected_sequence then
            [\<lparr>v_type = SEQUENCE_GAP, v_order_id = ev_order_id event, v_sequence = ev_sequence event,
              v_expected = py_str expected_sequence, v_observed = py_str (ev_sequence event)\<rparr>] else []);
          illegal = (if \<not> is_legal_transition (ev_type event) (f_state fold) then
            [\<lparr>v_type = ILLEGAL_TRANSITION, v_order_id = ev_order_id event, v_sequence = ev_sequence event,
              v_expected = (case EXPECTED_NEXT_EVENT (f_state fold) of
                 Some e \<Rightarrow> event_type_value e | None \<Rightarrow> ''nothing (lifecycle complete)''),
              v_observed = event_type_value (ev_type event) @ '' after '' @ state_text (f_state fold)\<rparr>]
            else [])
      in (fold\<lparr>f_last_sequence := ev_sequence event, f_state := Some (RESULTING_STATE (ev_type event))\<rparr>,
          gap @ illegal))"

section \<open>The consumer\<close>

type_synonym 's handler = "lifecycle_event \<Rightarrow> ('s, unit) comp"

record 's consumer =
  cn_kafka :: kafka
  cn_settings :: settings
  cn_name :: string
  cn_handlers :: "event_type \<rightharpoonup> 's handler"
  cn_store :: "'s store_ops"
  cn_commits :: "'s commit_ops"
  cn_pydantic :: pydantic
  cn_fresh :: string \<comment> \<open>what \<^verbatim>\<open>new_event_id()\<close> returns when an event carries no id\<close>

abbreviation cn_group_id :: "'s consumer \<Rightarrow> string" where
  "cn_group_id C \<equiv> group_id_for (cn_settings C) (cn_name C)"

definition decode_event :: "pydantic \<Rightarrow> string \<Rightarrow> datetime \<Rightarrow> wire \<Rightarrow> exn + lifecycle_event" where
  "decode_event P fresh now raw =
     (case json_loads raw \<bind> lifecycle_event_of P fresh now of
        None \<Rightarrow> Inl (NonRetryableError ''undecodable message'')
      | Some ev \<Rightarrow> Inr ev)"

definition commit_message :: "('x client_scheme) consumer \<Rightarrow> message \<Rightarrow> ('x client_scheme, unit) comp" where
  "commit_message C m = cs_note (cn_commits C) m"

definition rewind :: "('x client_scheme) consumer \<Rightarrow> message \<Rightarrow> ('x client_scheme, unit) comp" where
  "rewind C m =
     tryC (call (cn_kafka C) (Seek (m_topic m) (m_partition m) (m_offset m)))
       (\<lambda>e. case e of KafkaException _ _ \<Rightarrow> ret () | _ \<Rightarrow> raise e)"

definition crash_if_configured ::
    "('x client_scheme) consumer \<Rightarrow> state_crash_point \<Rightarrow> lifecycle_event \<Rightarrow> ('x client_scheme, unit) comp" where
  "crash_if_configured C point event =
     (if state_crash_after (cn_settings C) \<noteq> point then ret ()
      else thenC (mark (CRASH_LEVER (ev_order_id event) (ev_sequence event))) (hard_exit 1))"

definition save_fold ::
    "('x client_scheme) consumer \<Rightarrow> lifecycle_event \<Rightarrow> order_fold \<Rightarrow> int \<Rightarrow> ('x client_scheme, unit) comp" where
  "save_fold C event f p =
     bindC (st_save (cn_store C) p (ev_order_id event) f (event_id event)) (\<lambda>outcome.
     if so_applied outcome then ret ()
     else mark (DUPLICATE_ABSORBED (ev_order_id event) (ev_sequence event) (so_handled_count outcome)))"

definition persist_and_commit ::
    "('x client_scheme) consumer \<Rightarrow> message \<Rightarrow> lifecycle_event \<Rightarrow> order_fold \<Rightarrow> int \<Rightarrow>
     ('x client_scheme, unit) comp" where
  "persist_and_commit C m event f p =
     (if exactly_once (cn_settings C) then
        thenC (save_fold C event f p)
        (thenC (commit_message C m) (crash_if_configured C TRANSACTION_OPEN event))
      else if state_write_order (cn_settings C) = OFFSET_FIRST then
        thenC (commit_message C m)
        (thenC (crash_if_configured C OFFSET_COMMIT event) (save_fold C event f p))
      else
        thenC (save_fold C event f p)
        (thenC (st_flush (cn_store C))
        (thenC (crash_if_configured C STATE_WRITE event) (commit_message C m))))"

definition route_failure ::
    "('x client_scheme) consumer \<Rightarrow> message \<Rightarrow> exn \<Rightarrow> lifecycle_event option \<Rightarrow> int \<Rightarrow>
     ('x client_scheme, unit) comp" where
  "route_failure C m exc event attempt =
     (let K = cn_kafka C; c = cn_settings C;
          oid = (case event of Some ev \<Rightarrow> ev_order_id ev | None \<Rightarrow> key_of m);
          og = origin_from_message m;
          retryable = (classify exc \<noteq> NonRetryableKind);
          budget_left = (retryable \<and> retry_max_attempts c > attempt)
      in bindC (tryC
           (if \<not> budget_left then
              thenC (mark (if retryable then RETRY_EXHAUSTED oid else POISON_MESSAGE oid))
              (thenC (to_dead_letter K c m og (cn_name C) (cn_group_id C) attempt exc)
              (thenC (mark (DLQ_PUBLISHED oid)) (ret True)))
            else
              thenC (to_retry K c m og (cn_name C) (cn_group_id C) (attempt + 1) exc)
              (thenC (mark (RETRY_SCHEDULED oid (attempt + 1))) (ret True)))
           (\<lambda>e. case e of
              FailurePublishFailed t \<Rightarrow>
                thenC (mark (FAILURE_PUBLISH_FAILED oid)) (thenC (rewind C m) (ret False))
            | _ \<Rightarrow> raise e))
         (\<lambda>moved. if moved then commit_message C m else ret ()))"

definition handle_tombstone ::
    "('x client_scheme) consumer \<Rightarrow> message \<Rightarrow> int \<Rightarrow> ('x client_scheme, unit) comp" where
  "handle_tombstone C m p =
     (let oid = key_of m in
      bindC (st_delete (cn_store C) p oid) (\<lambda>deleted.
      thenC (mark (TOMBSTONE oid deleted)) (commit_message C m)))"

text \<open>The \<^verbatim>\<open>try\<close> around the failure lever and the handler: \<open>Some e\<close> is the failure to route.\<close>

definition run_handler ::
    "('x client_scheme) consumer \<Rightarrow> lifecycle_event \<Rightarrow> int \<Rightarrow> ('x client_scheme, exn option) comp" where
  "run_handler C event attempt =
     tryC
       (thenC (case maybe_fail (cn_settings C) event attempt of Some e \<Rightarrow> raise e | None \<Rightarrow> ret ())
       (thenC (case cn_handlers C (ev_type event) of None \<Rightarrow> ret () | Some h \<Rightarrow> h event)
       (ret None)))
       (\<lambda>e. case e of StateStoreUnavailable _ \<Rightarrow> raise e | _ \<Rightarrow> ret (Some e))"

definition fold_message ::
    "('x client_scheme) consumer \<Rightarrow> message \<Rightarrow> lifecycle_event \<Rightarrow> int \<Rightarrow> ('x client_scheme, unit) comp" where
  "fold_message C m event attempt =
     (let p = m_partition m in
      bindC (st_load (cn_store C) p (ev_order_id event)) (\<lambda>current.
      let redelivered = (case current of None \<Rightarrow> False | Some f \<Rightarrow> ev_sequence event \<le> f_last_sequence f);
          (updated, violations) = apply_event current event
      in thenC (forC (if redelivered then [] else violations) (\<lambda>v. mark (VIOLATION (as_log_fields v))))
         (bindC (run_handler C event attempt) (\<lambda>failure.
          case failure of
            Some e \<Rightarrow> route_failure C m e (Some event) attempt
          | None \<Rightarrow> persist_and_commit C m event updated p))))"

text \<open>The informative log line decodes the key outside any \<^verbatim>\<open>try\<close>.\<close>

definition log_key :: "message \<Rightarrow> ('s, unit) comp" where
  "log_key m =
     (case m_key m of
        None \<Rightarrow> ret ()
      | Some k \<Rightarrow> (case utf8_decode k of
            None \<Rightarrow> raise (OtherError ''UnicodeDecodeError'' ''invalid start byte'')
          | Some _ \<Rightarrow> ret ()))"

definition handle_message ::
    "('x client_scheme) consumer \<Rightarrow> message \<Rightarrow> ('x client_scheme, unit) comp" where
  "handle_message C m =
     (case m_value m of
        None \<Rightarrow> handle_tombstone C m (m_partition m)
      | Some raw \<Rightarrow>
          if m_topic m = order_snapshot_topic (cn_settings C) then commit_message C m
          else (let hs = decode_headers m; attempt = attempt_of hs in
            if hs HDR_RETRY_TARGET \<noteq> None \<and> hs HDR_RETRY_TARGET \<noteq> Some (cn_name C)
            then commit_message C m
            else bindC (gets (\<lambda>s. k_now (cn_kafka C) (trace s))) (\<lambda>now.
              case decode_event (cn_pydantic C) (cn_fresh C) now raw of
                Inl e \<Rightarrow> route_failure C m e None attempt
              | Inr event \<Rightarrow> thenC (log_key m) (fold_message C m event attempt))))"

section \<open>Settling, rebalances and the loop\<close>

definition rewind_partition :: "('x client_scheme) consumer \<Rightarrow> int \<Rightarrow> ('x client_scheme, unit) comp" where
  "rewind_partition C p =
     (let K = cn_kafka C in
      bindC (ask K QueryAssignment (k_assignment K)) (\<lambda>tps.
      let assigned = filter (\<lambda>tp. snd tp = p) tps in
      if assigned = [] then ret ()
      else tryC (bindC (ask K (QueryCommitted assigned) (k_committed K)) (\<lambda>cs.
             forC cs (\<lambda>((t, q), off). if off < 0 then ret () else call K (Seek t q off))))
           (\<lambda>e. case e of KafkaException _ _ \<Rightarrow> ret () | _ \<Rightarrow> raise e)))"

definition abort_and_repair :: "('x client_scheme) consumer \<Rightarrow> string \<Rightarrow> ('x client_scheme, unit) comp" where
  "abort_and_repair C reason =
     bindC (cs_abort (cn_commits C) reason) (\<lambda>touched.
     if touched = [] then ret ()
     else thenC (st_discard (cn_store C) touched)
       (thenC (st_restore (cn_store C) touched)
       (forC (sort touched) (rewind_partition C))))"

definition settle :: "('x client_scheme) consumer \<Rightarrow> ('x client_scheme, unit) comp" where
  "settle C =
     tryC (cs_maybe_commit (cn_commits C))
       (\<lambda>e. case e of
          KafkaException _ _ \<Rightarrow>
            thenC (mark TRANSACTION_COMMIT_FAILED) (abort_and_repair C ''commit failed'')
        | _ \<Rightarrow> raise e)"

text \<open>\<^verbatim>\<open>_log_membership\<close>.\<close>

definition log_membership ::
    "('x client_scheme) consumer \<Rightarrow> string \<Rightarrow> topic_partition list \<Rightarrow> ('x client_scheme, unit) comp" where
  "log_membership C what tps =
     bindC (gets (st_held (cn_store C))) (\<lambda>held. mark (REBALANCE what (sort (map snd tps)) held))"

definition on_assign :: "('x client_scheme) consumer \<Rightarrow> topic_partition list \<Rightarrow> ('x client_scheme, unit) comp" where
  "on_assign C tps =
     thenC (log_membership C ''ASSIGNED'' tps) (st_restore (cn_store C) (remdups (map snd tps)))"

definition forget_state :: "('x client_scheme) consumer \<Rightarrow> topic_partition list \<Rightarrow> ('x client_scheme, unit) comp" where
  forget_state_eq [simp]: "forget_state C tps = st_forget (cn_store C) (map snd tps)"

text \<open>\<^verbatim>\<open>_handle_error\<close>, on what the poll returned.\<close>

fun handle_error :: "polled \<Rightarrow> ('s, unit) comp" where
  "handle_error (PollError t fatal) = (if fatal then raise (KafkaException 0 t) else ret ())"
| "handle_error _ = ret ()"

definition on_revoke :: "('x client_scheme) consumer \<Rightarrow> topic_partition list \<Rightarrow> ('x client_scheme, unit) comp" where
  "on_revoke C tps =
     thenC (log_membership C ''REVOKED'' tps)
       (thenC (cs_abort (cn_commits C) ''partitions revoked'') (forget_state C tps))"

definition on_lost :: "('x client_scheme) consumer \<Rightarrow> topic_partition list \<Rightarrow> ('x client_scheme, unit) comp" where
  "on_lost C tps =
     thenC (log_membership C ''LOST'' tps)
       (thenC (cs_abort (cn_commits C) ''partitions lost'') (forget_state C tps))"

datatype input =
    Poll polled
  | Assigned "topic_partition list"
  | Revoked "topic_partition list"
  | Lost "topic_partition list"

text \<open>One iteration of the loop; a rebalance callback runs inside the poll that reports it.\<close>

fun loop_step :: "('x client_scheme) consumer \<Rightarrow> input \<Rightarrow> ('x client_scheme, unit) comp" where
  "loop_step C (Poll NoMessage) = settle C"
| "loop_step C (Poll PartitionEOF) = handle_error PartitionEOF"
| "loop_step C (Poll (PollError t fatal)) = handle_error (PollError t fatal)"
| "loop_step C (Poll (Polled m)) = thenC (handle_message C m) (settle C)"
| "loop_step C (Assigned tps) = on_assign C tps"
| "loop_step C (Revoked tps) = on_revoke C tps"
| "loop_step C (Lost tps) = on_lost C tps"

definition consume :: "('x client_scheme) consumer \<Rightarrow> input list \<Rightarrow> ('x client_scheme, unit) comp" where
  "consume C inputs = forC inputs (loop_step C)"

definition run :: "('x client_scheme) consumer \<Rightarrow> input list \<Rightarrow> ('x client_scheme, unit) comp" where
  "run C inputs =
     thenC (call (cn_kafka C) (Subscribe [order_lifecycle_topic (cn_settings C), order_snapshot_topic (cn_settings C)]))
       (finallyC
         (tryC (consume C inputs)
            (\<lambda>e. case e of
               ProducerFenced _ \<Rightarrow> thenC (mark PRODUCER_FENCED) (raise e)
             | StateStoreUnavailable _ \<Rightarrow> thenC (mark STATE_STORE_UNAVAILABLE) (raise e)
             | _ \<Rightarrow> raise e))
         (thenC (cs_close (cn_commits C)) (call (cn_kafka C) CloseConsumer)))"

end
