(* ===== verification/Runtime_Fold.thy ===== *)
theory Runtime_Fold
  imports Runtime
begin

text \<open>
  What the consume loop of \<open>Runtime\<close> makes of the events of an order: the violations
  \<^verbatim>\<open>apply_event\<close> reports over a whole stream, compared with the lifecycle the producer promises,
  and the run of \<^verbatim>\<open>_handle_message\<close> on a message that nothing goes wrong with.
\<close>

section \<open>Folding a stream\<close>

primrec fold_events ::
    "order_fold option \<Rightarrow> lifecycle_event list \<Rightarrow> order_fold option \<times> violation list" where
  "fold_events cur [] = (cur, [])"
| "fold_events cur (e # es) =
     (let (f, vs) = apply_event cur e; (g, ws) = fold_events (Some f) es in (g, vs @ ws))"

text \<open>The lifecycle of an order as the producer means it: each event type once, in this order, numbered
  from 1.\<close>

definition lifecycle :: "(int \<times> event_type) list" where
  "lifecycle = [(1, ORDER_CREATED), (2, PACKED), (3, SHIPPED), (4, DELIVERED)]"

definition step_of :: "lifecycle_event \<Rightarrow> int \<times> event_type" where
  "step_of e = (ev_sequence e, ev_type e)"

text \<open>The steps still to come for a fold; folds a clean stream can leave.\<close>

definition position_in :: "order_fold option \<Rightarrow> nat" where
  "position_in cur = (case cur of None \<Rightarrow> 0 | Some f \<Rightarrow> nat (f_last_sequence f))"

definition on_course :: "order_fold option \<Rightarrow> bool" where
  "on_course cur \<longleftrightarrow> (case cur of
     None \<Rightarrow> True
   | Some f \<Rightarrow> 1 \<le> f_last_sequence f \<and> f_last_sequence f \<le> 4 \<and>
       f_state f = Some (RESULTING_STATE (snd (lifecycle ! nat (f_last_sequence f - 1)))))"

lemma less_4_cases: "n \<le> (4::int) \<Longrightarrow> 1 \<le> n \<Longrightarrow> n = 1 \<or> n = 2 \<or> n = 3 \<or> n = 4"
  by arith

lemma apply_event_fields:
  "f_last_sequence (fst (apply_event cur e)) = ev_sequence e"
  "f_state (fst (apply_event cur e)) = Some (RESULTING_STATE (ev_type e))"
  "f_order_id (fst (apply_event cur e)) = (case cur of None \<Rightarrow> ev_order_id e | Some f \<Rightarrow> f_order_id f)"
  by (simp_all add: apply_event_def Let_def new_fold_def split: option.splits)

lemma apply_event_clean:
  "snd (apply_event cur e) = [] \<longleftrightarrow>
     ev_sequence e = (case cur of None \<Rightarrow> 0 | Some f \<Rightarrow> f_last_sequence f) + 1 \<and>
     is_legal_transition (ev_type e) (cur \<bind> f_state)"
  by (cases cur) (auto simp: apply_event_def Let_def new_fold_def)

lemma apply_event_on_course:
  assumes "on_course cur"
  shows "snd (apply_event cur e) = [] \<longleftrightarrow>
     position_in cur < 4 \<and> step_of e = lifecycle ! position_in cur"
proof (cases cur)
  case None
  then show ?thesis
    by (auto simp: apply_event_clean step_of_def lifecycle_def position_in_def is_legal_transition_def)
      (cases "ev_type e"; simp)+
next
  case (Some f)
  with assms have "f_last_sequence f = 1 \<or> f_last_sequence f = 2 \<or> f_last_sequence f = 3 \<or> f_last_sequence f = 4"
    by (intro less_4_cases) (auto simp: on_course_def)
  with assms Some show ?thesis
    by (cases "ev_type e")
      (auto simp: apply_event_clean step_of_def lifecycle_def position_in_def on_course_def
        is_legal_transition_def)
qed

lemma on_course_apply:
  assumes "on_course cur" and "snd (apply_event cur e) = []"
  shows "on_course (Some (fst (apply_event cur e)))"
    and "position_in (Some (fst (apply_event cur e))) = Suc (position_in cur)"
proof -
  have s: "step_of e = lifecycle ! position_in cur" "position_in cur < 4"
    using apply_event_on_course [OF assms(1)] assms(2) by auto
  have "position_in cur = 0 \<or> position_in cur = 1 \<or> position_in cur = 2 \<or> position_in cur = 3"
    using s(2) by arith
  with s show "on_course (Some (fst (apply_event cur e)))"
    "position_in (Some (fst (apply_event cur e))) = Suc (position_in cur)"
    by (auto simp: on_course_def position_in_def apply_event_fields step_of_def lifecycle_def)
qed

lemma fold_events_on_course:
  assumes "on_course cur"
  shows "snd (fold_events cur es) = [] \<longleftrightarrow>
     map step_of es = take (length es) (drop (position_in cur) lifecycle)"
  using assms
proof (induction es arbitrary: cur)
  case Nil
  then show ?case by simp
next
  case (Cons e es)
  have len: "length lifecycle = 4" by (simp add: lifecycle_def)
  have split: "drop (position_in cur) lifecycle =
      lifecycle ! position_in cur # drop (Suc (position_in cur)) lifecycle" if "position_in cur < 4"
    using that len by (simp add: Cons_nth_drop_Suc)
  show ?case
  proof (cases "snd (apply_event cur e) = []")
    case True
    note oc = on_course_apply [OF Cons.prems True]
    have "position_in cur < 4 \<and> step_of e = lifecycle ! position_in cur"
      using True apply_event_on_course [OF Cons.prems] by blast
    then show ?thesis
      using True Cons.IH [OF oc(1)] oc(2) split by (simp add: case_prod_beta Let_def)
  next
    case False
    then have "\<not> (position_in cur < 4 \<and> step_of e = lifecycle ! position_in cur)"
      using apply_event_on_course [OF Cons.prems] by blast
    moreover have "drop (position_in cur) lifecycle = []" if "\<not> position_in cur < 4"
      using that len by simp
    ultimately show ?thesis using False split
      by (cases "position_in cur < 4") (auto simp: case_prod_beta Let_def)
  qed
qed

section \<open>The run of one message\<close>

lemma forC_mark [simp]:
  "forC xs (\<lambda>x. mark (f x)) s = (Ok (), s\<lparr>markers := markers s @ map f xs\<rparr>)"
  by (induction xs arbitrary: s) (simp_all add: ret_def bindC_def)

text \<open>A lifecycle message that is this service's to handle: not a tombstone, not a snapshot, and not
  a retry addressed to another service.\<close>

definition for_us :: "'s consumer \<Rightarrow> message \<Rightarrow> bool" where
  "for_us C m \<longleftrightarrow> m_value m \<noteq> None \<and> m_topic m \<noteq> order_snapshot_topic (cn_settings C) \<and>
     (case decode_headers m HDR_RETRY_TARGET of None \<Rightarrow> True | Some t \<Rightarrow> t = cn_name C)"

lemma handle_message_for_us:
  assumes "for_us C m" and "m_value m = Some raw"
  shows "handle_message C m s =
    (case decode_event (cn_pydantic C) (cn_fresh C) (k_now (cn_kafka C) (trace s)) raw of
       Inl e \<Rightarrow> route_failure C m e None (attempt_of (decode_headers m)) s
     | Inr event \<Rightarrow> thenC (log_key m) (fold_message C m event (attempt_of (decode_headers m))) s)"
  using assms by (auto simp: handle_message_def for_us_def Let_def split: option.splits sum.splits)

text \<open>The message carries an event of this consumer, under its order's key.\<close>

definition carries :: "'s consumer \<Rightarrow> message \<Rightarrow> lifecycle_event \<Rightarrow> bool" where
  "carries C m ev \<longleftrightarrow> for_us C m \<and> valid_event (cn_pydantic C) ev \<and>
     m_value m = Some (json_dumps (dump_lifecycle_event (cn_pydantic C) ev)) \<and>
     (\<exists>k t. m_key m = Some k \<and> utf8_decode k = Some t)"

definition reported :: "order_fold option \<Rightarrow> lifecycle_event \<Rightarrow> violation list" where
  "reported cur ev =
     (if (case cur of None \<Rightarrow> False | Some f \<Rightarrow> ev_sequence ev \<le> f_last_sequence f) then []
      else snd (apply_event cur ev))"

lemma fold_message_unfold:
  "fold_message C m ev attempt = bindC (st_load (cn_store C) (m_partition m) (ev_order_id ev)) (\<lambda>cur.
     bindC (forC (reported cur ev) (\<lambda>v. mark (VIOLATION (as_log_fields v))))
     (\<lambda>_. bindC (run_handler C ev attempt) (\<lambda>failure.
       case failure of
         Some e \<Rightarrow> route_failure C m e (Some ev) attempt
       | None \<Rightarrow> persist_and_commit C m ev (fst (apply_event cur ev)) (m_partition m))))"
  unfolding fold_message_def reported_def Let_def case_prod_beta by (rule refl)

lemma run_handler_fine:
  assumes "maybe_fail (cn_settings C) ev attempt = None"
    and "case cn_handlers C (ev_type ev) of None \<Rightarrow> t = s | Some h \<Rightarrow> h ev s = (Ok (), t)"
  shows "run_handler C ev attempt s = (Ok None, t)"
  using assms by (auto simp: run_handler_def tryC_def bindC_def ret_def split: option.splits)

text \<open>The handling of a message whose handler returns is the load, the report, the handler and the
  write, with nothing routed.\<close>

lemma handle_message_fine:
  assumes "pydantic_ok (cn_pydantic C)" and m: "carries C m ev"
    and "st_load (cn_store C) (m_partition m) (ev_order_id ev) s = (Ok cur, s1)"
    and "maybe_fail (cn_settings C) ev (attempt_of (decode_headers m)) = None"
    and "s2 = s1\<lparr>markers := markers s1 @ map (\<lambda>v. VIOLATION (as_log_fields v)) (reported cur ev)\<rparr>"
    and "case cn_handlers C (ev_type ev) of None \<Rightarrow> s3 = s2 | Some h \<Rightarrow> h ev s2 = (Ok (), s3)"
  shows "handle_message C m s =
    persist_and_commit C m ev (fst (apply_event cur ev)) (m_partition m) s3"
proof -
  let ?raw = "json_dumps (dump_lifecycle_event (cn_pydantic C) ev)"
  have us: "for_us C m" and raw: "m_value m = Some ?raw" using m by (auto simp: carries_def)
  have d: "decode_event (cn_pydantic C) (cn_fresh C) now ?raw = Inr ev" for now
    using m assms(1) by (simp add: decode_event_def lifecycle_event_of_dump carries_def)
  have k: "log_key m = ret ()" using m by (auto simp: log_key_def carries_def)
  have h: "run_handler C ev (attempt_of (decode_headers m)) s2 = (Ok None, s3)"
    by (rule run_handler_fine) (use assms(4,6) in auto)
  show ?thesis
    unfolding handle_message_for_us [OF us raw] d sum.case k bindC_ret fold_message_unfold
      bindC_OkI [of "st_load (cn_store C) (m_partition m) (ev_order_id ev)", OF assms(3)]
    using h assms(5) by (simp add: bindC_def)
qed

section \<open>Properties\<close>

text \<open>C6. A stream of events of one order is folded without a violation exactly when it is a beginning
  of the lifecycle: the events numbered from 1, one of each type, in the order created, packed,
  shipped, delivered. Gaps, repeats, reorderings and events after delivery are all reported.\<close>

theorem clean_stream_iff_lifecycle:
  "snd (fold_events None es) = [] \<longleftrightarrow>
     map (\<lambda>e. (ev_sequence e, ev_type e)) es =
       take (length es) [(1, ORDER_CREATED), (2, PACKED), (3, SHIPPED), (4, DELIVERED)]"
  using fold_events_on_course [of None es]
  by (simp add: on_course_def position_in_def lifecycle_def step_of_def [abs_def])

end
