(* ===== verification/Published_Lifecycle.thy ===== *)
theory Published_Lifecycle
  imports Routes Runtime_Fold
begin

text \<open>
  What the order service tells the topic and what it remembers. As long as requests run one after the
  other, are not forced and none fails at the broker, the lifecycle records of an order are a beginning
  of its lifecycle, and the order store is exactly at the end of it.
\<close>

section \<open>The records of an order\<close>

definition lifecycle_log :: "settings \<Rightarrow> string \<Rightarrow> sent list \<Rightarrow> sent list" where
  "lifecycle_log c oid l = filter (\<lambda>r. s_topic r = order_lifecycle_topic c \<and> s_key r = oid) l"

lemma lifecycle_log_simps [simp]:
  "lifecycle_log c oid [] = []"
  "lifecycle_log c oid (l @ l') = lifecycle_log c oid l @ lifecycle_log c oid l'"
  "lifecycle_log c oid (r # l) =
     (if s_topic r = order_lifecycle_topic c \<and> s_key r = oid then r # lifecycle_log c oid l else lifecycle_log c oid l)"
  by (simp_all add: lifecycle_log_def)

lemma lifecycle_log_snapshots [simp]:
  assumes "order_lifecycle_topic c \<noteq> order_snapshot_topic c" and "\<forall>x \<in> set l. s_topic x = order_snapshot_topic c"
  shows "lifecycle_log c oid l = []"
  using assms by (auto simp: lifecycle_log_def filter_empty_conv)

text \<open>These events have been told of the order, and the store agrees.\<close>

definition told :: "pydantic \<Rightarrow> settings \<Rightarrow> string \<Rightarrow> order_app \<Rightarrow> lifecycle_event list \<Rightarrow> bool" where
  "told P c oid s es \<longleftrightarrow>
     lifecycle_log c oid (enqueued s) = map (lifecycle_record P c) es \<and>
     list_all (\<lambda>e. valid_event P e \<and> ev_order_id e = oid) es \<and>
     map step_of es = take (length es) lifecycle \<and>
     (case app_orders s oid of
        None \<Rightarrow> True
      | Some r \<Rightarrow> es \<noteq> [] \<and> o_last_sequence r = int (length es) \<and> o_state r = RESULTING_STATE (ev_type (last es)))"

lemma told_frame:
  assumes "told P c oid s es" and "lifecycle_log c oid (enqueued t) = lifecycle_log c oid (enqueued s)"
    and "app_orders t oid = app_orders s oid"
  shows "told P c oid t es"
  using assms by (simp add: told_def)

lemma told_forgotten:
  assumes "told P c oid s es" and "lifecycle_log c oid (enqueued t) = lifecycle_log c oid (enqueued s)"
    and "app_orders t oid = None"
  shows "told P c oid t es"
  using assms by (simp add: told_def)

lemma told_created:
  assumes "lifecycle_log c oid (enqueued t) = [lifecycle_record P c ev]" and "valid_event P ev"
    and "ev_order_id ev = oid" and "ev_sequence ev = 1" and "ev_type ev = ORDER_CREATED"
    and "app_orders t oid = Some r" and "o_last_sequence r = 1" and "o_state r = S_CREATED"
  shows "told P c oid t [ev]"
  using assms by (simp add: told_def step_of_def lifecycle_def)

text \<open>Where a beginning of the lifecycle ends, and that a legal event is the next step of it.\<close>

lemma last_step:
  assumes "map step_of es = take (length es) lifecycle" and "es \<noteq> []"
  shows "length es = 1 \<or> length es = 2 \<or> length es = 3 \<or> length es = 4"
    and "step_of (last es) = lifecycle ! (length es - 1)"
proof -
  have len: "length es \<le> 4" using arg_cong [OF assms(1), of length] by (simp add: lifecycle_def)
  have pos: "0 < length es" using assms(2) by simp
  from len pos show "length es = 1 \<or> length es = 2 \<or> length es = 3 \<or> length es = 4" by arith
  have "step_of (last es) = last (take (length es) lifecycle)"
    unfolding assms(1) [symmetric] using assms(2) by (simp add: last_map)
  also have "\<dots> = take (length es) lifecycle ! (length (take (length es) lifecycle) - 1)"
    using assms(2) by (intro last_conv_nth) (simp add: lifecycle_def)
  also have "\<dots> = lifecycle ! (length es - 1)" using len assms(2) by (simp add: lifecycle_def)
  finally show "step_of (last es) = lifecycle ! (length es - 1)" .
qed

lemma last_sequence:
  assumes "map step_of es = take (length es) lifecycle" and "es \<noteq> []"
  shows "ev_sequence (last es) = int (length es)"
  using last_step [OF assms] by (auto simp: step_of_def lifecycle_def)

lemma legal_next_step:
  assumes "map step_of es = take (length es) lifecycle" and "es \<noteq> []"
    and "is_legal_transition et (Some (RESULTING_STATE (ev_type (last es))))"
  shows "length es < 4 \<and> lifecycle ! length es = (int (length es) + 1, et)"
  using last_step [OF assms(1,2)] assms(3)
  by (cases et) (auto simp: step_of_def lifecycle_def is_legal_transition_def)

lemma told_advanced:
  assumes "told P c oid s es" and "app_orders s oid = Some r"
    and "lifecycle_log c oid (enqueued t) = lifecycle_log c oid (enqueued s) @ [lifecycle_record P c ev]"
    and "valid_event P ev" and "ev_order_id ev = oid" and "ev_sequence ev = o_last_sequence r + 1"
    and "is_legal_transition (ev_type ev) (Some (o_state r))"
    and "app_orders t oid = Some (r\<lparr>o_last_sequence := o_last_sequence r + 1, o_state := RESULTING_STATE (ev_type ev)\<rparr>)"
  shows "told P c oid t (es @ [ev])"
proof -
  have es: "es \<noteq> []" "o_last_sequence r = int (length es)" "o_state r = RESULTING_STATE (ev_type (last es))"
    "map step_of es = take (length es) lifecycle"
    using assms(1,2) by (simp_all add: told_def)
  have "length es < 4 \<and> lifecycle ! length es = (int (length es) + 1, ev_type ev)"
    by (rule legal_next_step [OF es(4,1)]) (use assms(7) es(3) in simp)
  then have nx: "length es < length lifecycle" "lifecycle ! length es = step_of ev"
    using assms(6) es(2) by (simp_all add: step_of_def lifecycle_def)
  then have "map step_of (es @ [ev]) = take (length (es @ [ev])) lifecycle"
    using es(4) by (simp add: take_Suc_conv_app_nth)
  then show ?thesis using assms es by (simp add: told_def)
qed

section \<open>Requests one after the other\<close>

fun unforced :: "http_request \<Rightarrow> bool" where
  "unforced (PostEvent eid now oid body) = (\<not> per_force body)"
| "unforced _ = True"

fun new_ids :: "http_request \<Rightarrow> string list" where
  "new_ids (PostOrder hex eid now body) = [new_order_id hex]"
| "new_ids _ = []"

lemma told_create:
  assumes B: "broker_ok B" and P: "pydantic_ok P" and tp: "order_lifecycle_topic c \<noteq> order_snapshot_topic c"
    and ok: "create_order_request_ok body" and fresh: "lifecycle_log c (new_order_id hex) (enqueued s) = []"
    and run: "handle_request B P c (PostOrder hex eid now body) s = (code, t)" and fine: "code \<notin> {502, 504}"
    and old: "told P c oid s es"
  shows "\<exists>es'. told P c oid t es'"
    and "oid \<noteq> new_order_id hex \<Longrightarrow> lifecycle_log c oid (enqueued t) = lifecycle_log c oid (enqueued s)"
proof -
  have "(\<exists>es'. told P c oid t es') \<and>
    (oid \<noteq> new_order_id hex \<longrightarrow> lifecycle_log c oid (enqueued t) = lifecycle_log c oid (enqueued s))"
  proof (cases "pay_amount (cor_payment body) = item_sum (cor_items body)")
    case False
    with ok run old show ?thesis by (auto simp: create_order_mismatch)
  next
    case True
    let ?ev = "created_event hex eid now body"
    have v: "valid_event P ?ev" by (rule mk_lifecycle_event_SomeD(2) [OF mk_created_event [OF P ok True]])
    have ev: "ev_order_id ?ev = new_order_id hex" "ev_sequence ?ev = 1" "ev_type ?ev = ORDER_CREATED"
      by (simp_all add: created_event_def)
    from B P ok True show ?thesis
    proof (cases rule: create_order_proceeds [where c = c and hex = hex and eid = eid and now = now and s = s])
      case (created part off l)
      then have t: "t = s\<lparr>enqueued := enqueued s @ [lifecycle_record P c ?ev] @ l,
          app_orders := snd (register (app_orders s) (new_order_id hex) (created_payload body))\<rparr>"
        using run by simp
      have log: "lifecycle_log c x (enqueued t) = lifecycle_log c x (enqueued s) @
          (if x = new_order_id hex then [lifecycle_record P c ?ev] else [])" for x
        using created(3) tp ev by (simp add: t)
      show ?thesis
      proof (cases "oid = new_order_id hex")
        case True
        then have "told P c oid t [?ev]"
          using log [of oid] fresh v ev by (intro told_created [where r = "fst (register (app_orders s) (new_order_id hex) (created_payload body))"])
              (simp_all add: t register_def Let_def)
        with True show ?thesis by blast
      next
        case False
        then have "told P c oid t es"
          using log [of oid] by (intro told_frame [OF old]) (simp_all add: t register_def Let_def)
        with False log [of oid] show ?thesis by auto
      qed
    next
      case (failed code' t' l)
      with run fine show ?thesis by (auto simp: http_status_def)
    qed
  qed
  then show "\<exists>es'. told P c oid t es'"
    and "oid \<noteq> new_order_id hex \<Longrightarrow> lifecycle_log c oid (enqueued t) = lifecycle_log c oid (enqueued s)"
    by blast+
qed

lemma told_event:
  assumes B: "broker_ok B" and tp: "order_lifecycle_topic c \<noteq> order_snapshot_topic c" and un: "\<not> per_force body"
    and run: "handle_request B P c (PostEvent eid now o1 body) s = (code, t)" and fine: "code \<notin> {502, 504}"
    and old: "told P c oid s es" and ne: "lifecycle_log c o1 (enqueued s) = [] \<Longrightarrow> app_orders s o1 = None"
    and pos: "\<And>r. app_orders s o1 = Some r \<Longrightarrow> 0 \<le> o_last_sequence r"
  shows "\<exists>es'. told P c oid t es'"
    and "lifecycle_log c oid (enqueued s) = [] \<Longrightarrow> lifecycle_log c oid (enqueued t) = []"
proof -
  have "(\<exists>es'. told P c oid t es') \<and>
    (lifecycle_log c oid (enqueued s) = [] \<longrightarrow> lifecycle_log c oid (enqueued t) = [])"
  proof (cases "app_orders s o1")
    case None
    with run old show ?thesis by (auto simp: publish_event_unknown)
  next
    case (Some r)
    show ?thesis
    proof (cases "validate_payload P (per_event_type body) (per_payload body)")
      case (Inl e)
      with Some run old show ?thesis by (auto simp: publish_event_malformed)
    next
      case (Inr m)
      show ?thesis
      proof (cases "is_legal_transition (per_event_type body) (Some (o_state r))")
        case False
        with Some Inr un run old show ?thesis by (auto simp: publish_event_illegal)
      next
        case True
        let ?ev = "\<lparr>event_id = eid, ev_order_id = o1, ev_sequence = o_last_sequence r + 1,
          ev_type = per_event_type body, occurred_at = now, payload = per_payload body\<rparr>"
        have v: "valid_event P ?ev" using Inr pos [OF Some] by (simp add: valid_event_def)
        have g: "per_force body \<or> is_legal_transition (per_event_type body) (Some (o_state r))" using True by simp
        from B Some Inr g pos [OF Some] show ?thesis
        proof (cases rule: publish_event_proceeds
            [where B = B and P = P and c = c and eid = eid and now = now and oid = o1 and body = body and s = s])
          case (published part off l)
          then have t: "t = s\<lparr>enqueued := enqueued s @ [lifecycle_record P c ?ev] @ l, app_orders := (app_orders s)
              (o1 \<mapsto> r\<lparr>o_last_sequence := o_last_sequence r + 1, o_state := RESULTING_STATE (per_event_type body)\<rparr>)\<rparr>"
            using run un True by simp
          have log: "lifecycle_log c x (enqueued t) = lifecycle_log c x (enqueued s) @
              (if x = o1 then [lifecycle_record P c ?ev] else [])" for x
            using published(3) tp by (simp add: t)
          show ?thesis
          proof (cases "oid = o1")
            case True
            then have "told P c oid t (es @ [?ev])"
              using log [of oid] v Some g un by (intro told_advanced [OF old]) (simp_all add: t)
            with True ne Some show ?thesis by auto
          next
            case False
            then have "told P c oid t es" using log [of oid] by (intro told_frame [OF old]) (simp_all add: t)
            with False log [of oid] show ?thesis by auto
          qed
        next
          case (failed code' t' l)
          with run fine show ?thesis by (auto simp: http_status_def)
        qed
      qed
    qed
  qed
  then show "\<exists>es'. told P c oid t es'"
    and "lifecycle_log c oid (enqueued s) = [] \<Longrightarrow> lifecycle_log c oid (enqueued t) = []"
    by blast+
qed

lemma told_delete:
  assumes B: "broker_ok B" and tp: "order_lifecycle_topic c \<noteq> order_snapshot_topic c"
    and run: "handle_request B P c (DeleteOrder o1) s = (code, t)" and fine: "code \<notin> {502, 504}"
    and old: "told P c oid s es"
  shows "told P c oid t es" and "lifecycle_log c oid (enqueued t) = lifecycle_log c oid (enqueued s)"
proof -
  have "told P c oid t es \<and> lifecycle_log c oid (enqueued t) = lifecycle_log c oid (enqueued s)"
  proof (cases "app_orders s o1")
    case None
    with run old show ?thesis by (auto simp: delete_order_unknown)
  next
    case (Some r)
    with B show ?thesis
    proof (cases rule: delete_order_proceeds [where c = c])
      case (deleted part off)
      then have t: "t = s\<lparr>enqueued := enqueued s @ [tombstone_record c o1], app_orders := (app_orders s)(o1 := None)\<rparr>"
        using run by simp
      then have log: "lifecycle_log c oid (enqueued t) = lifecycle_log c oid (enqueued s)"
        using tp by simp
      moreover have "told P c oid t es"
      proof (cases "oid = o1")
        case True
        then show ?thesis by (intro told_forgotten [OF old log]) (simp add: t)
      next
        case False
        then show ?thesis by (intro told_frame [OF old log]) (simp add: t)
      qed
      ultimately show ?thesis by blast
    next
      case (failed code' t' l)
      with run fine show ?thesis by (auto simp: http_status_def)
    qed
  qed
  then show "told P c oid t es" and "lifecycle_log c oid (enqueued t) = lifecycle_log c oid (enqueued s)" by blast+
qed

text \<open>Every order the service holds has been told of, and nothing of the orders still to be created.\<close>

definition in_step :: "pydantic \<Rightarrow> settings \<Rightarrow> order_app \<Rightarrow> bool" where
  "in_step P c s \<longleftrightarrow> (\<forall>oid. \<exists>es. told P c oid s es)"

lemma in_step_held:
  assumes "in_step P c s" and "lifecycle_log c oid (enqueued s) = []"
  shows "app_orders s oid = None"
proof -
  obtain es where "told P c oid s es" using assms(1) by (auto simp: in_step_def)
  with assms(2) show ?thesis by (auto simp: told_def split: option.splits)
qed

lemma in_step_request:
  assumes "broker_ok B" and "pydantic_ok P" and "order_lifecycle_topic c \<noteq> order_snapshot_topic c"
    and "store_ok (app_orders s)" and "request_ok q" and "unforced q" and "in_step P c s"
    and "\<forall>oid \<in> set (new_ids q). lifecycle_log c oid (enqueued s) = []"
    and "handle_request B P c q s = (code, t)" and "code \<notin> {502, 504}"
  shows "in_step P c t \<and>
    (\<forall>oid. oid \<notin> set (new_ids q) \<longrightarrow> lifecycle_log c oid (enqueued s) = [] \<longrightarrow> lifecycle_log c oid (enqueued t) = [])"
proof -
  have "(\<exists>es. told P c oid t es) \<and> (oid \<notin> set (new_ids q) \<longrightarrow>
      lifecycle_log c oid (enqueued s) = [] \<longrightarrow> lifecycle_log c oid (enqueued t) = [])" for oid
  proof -
    obtain es where es: "told P c oid s es" using assms(7) by (auto simp: in_step_def)
    show ?thesis
    proof (cases q)
      case (PostOrder hex eid now body)
      with assms told_create [OF assms(1-3) _ _ _ assms(10) es] show ?thesis by auto
    next
      case (PostEvent eid now o1 body)
      have pos: "app_orders s o1 = Some r \<Longrightarrow> 0 \<le> o_last_sequence r" for r
        using store_okD [OF assms(4), of o1 r] by (auto simp: order_ok_def)
      from PostEvent assms told_event [OF assms(1,3) _ _ assms(10) es in_step_held [OF assms(7)] pos]
      show ?thesis by auto
    next
      case (DeleteOrder o1)
      with assms told_delete [OF assms(1,3) _ assms(10) es] show ?thesis by auto
    next
      case (GetOrder o1)
      with assms es show ?thesis
        by (auto simp: get_order_def get_order_record_def ret_def raise_def split: option.splits)
    next
      case GetHealth
      with assms es show ?thesis by auto
    qed
  qed
  then show ?thesis by (simp add: in_step_def)
qed

lemma in_step_serve:
  assumes "broker_ok B" and "pydantic_ok P" and "order_lifecycle_topic c \<noteq> order_snapshot_topic c"
    and "store_ok (app_orders s)" and "list_all request_ok qs" and "list_all unforced qs" and "in_step P c s"
    and "distinct (concat (map new_ids qs))"
    and "\<forall>oid \<in> set (concat (map new_ids qs)). lifecycle_log c oid (enqueued s) = []"
    and "serve B P c qs s = (codes, t)" and "set codes \<inter> {502, 504} = {}"
  shows "in_step P c t"
  using assms(4-11)
proof (induction qs arbitrary: s codes)
  case Nil
  then show ?case by simp
next
  case (Cons q qs)
  obtain code u where h: "handle_request B P c q s = (code, u)" by (cases "handle_request B P c q s")
  obtain codes' where sv: "serve B P c qs u = (codes', t)" "codes = code # codes'"
    using Cons.prems h by (auto split: prod.splits)
  have step: "in_step P c u \<and> (\<forall>oid. oid \<notin> set (new_ids q) \<longrightarrow>
      lifecycle_log c oid (enqueued s) = [] \<longrightarrow> lifecycle_log c oid (enqueued u) = [])"
    by (rule in_step_request [OF assms(1-3) Cons.prems(1) _ _ _ _ h]) (use Cons.prems sv(2) in auto)
  have st: "store_ok (app_orders u)"
    using handle_request_ok [OF assms(1,2) Cons.prems(1) _ h] Cons.prems(2) by simp
  show ?case
  proof (rule Cons.IH [OF st _ _ _ _ _ sv(1)])
    show "\<forall>oid \<in> set (concat (map new_ids qs)). lifecycle_log c oid (enqueued u) = []"
    proof
      fix oid
      assume "oid \<in> set (concat (map new_ids qs))"
      with Cons.prems(5,6) have "oid \<notin> set (new_ids q)" "lifecycle_log c oid (enqueued s) = []" by auto
      with step show "lifecycle_log c oid (enqueued u) = []" by blast
    qed
  qed (use Cons.prems sv(2) step in auto)
qed

lemma in_step_init: "in_step P c app_init"
  by (simp add: in_step_def told_def app_init_def exI [of _ "[]"])

definition demo_requests :: "http_request list" where
  "demo_requests = [PostOrder ''0123456789abcdef'' ''e1'' 0 demo_body,
     PostEvent ''e2'' 1 ''ord-0123456789ab'' \<lparr>per_event_type = PACKED, per_payload = [], per_force = False\<rparr>]"

lemma demo_served:
  "\<exists>t r. serve accepting_broker strict_pydantic default_settings demo_requests app_init = ([201, 200], t) \<and>
     app_orders t ''ord-0123456789ab'' = Some r \<and> o_last_sequence r = 2 \<and> o_state r = S_PACKED \<and>
     (\<forall>x \<in> set (enqueued t). s_key x = ''ord-0123456789ab'')"
proof -
  have ok: "create_order_request_ok demo_body"
    by (simp add: create_order_request_ok_def demo_body_def demo_item_def valid_item_def valid_payment_def)
  have eq: "pay_amount (cor_payment demo_body) = item_sum (cor_items demo_body)"
    by (simp add: demo_body_def demo_item_def item_sum_def line_total_def)
  obtain resp t where t: "create_order accepting_broker strict_pydantic default_settings ''0123456789abcdef'' ''e1'' 0
      demo_body app_init = (Ok resp, t)"
    and r': "app_orders t = [new_order_id ''0123456789abcdef'' \<mapsto>
      fst (register Map.empty (new_order_id ''0123456789abcdef'') (created_payload demo_body))]"
    and k': "\<forall>x \<in> set (enqueued t). s_key x = new_order_id ''0123456789abcdef''"
    by (simp add: create_order_def mk_created_payload [OF ok eq]
        mk_created_event [OF strict_pydantic_ok ok eq] bindC_def gets_def modify_def
        publish_http_def tryC_def publish_and_wait_def publish_blocking_def produce_keyed_def
        accepting_broker_def ret_def publish_order_snapshot_def publish_snapshot_def Let_def app_init_def register_def created_event_def)
  have k: "\<forall>x \<in> set (enqueued t). s_key x = ''ord-0123456789ab''"
    using k' by (simp add: new_order_id_def)
  have r: "app_orders t = [''ord-0123456789ab'' \<mapsto> fst (register Map.empty ''ord-0123456789ab'' (created_payload demo_body))]"
    using r' by (simp add: new_order_id_def)
  have "\<exists>resp u. publish_event accepting_broker strict_pydantic default_settings ''e2'' 1 ''ord-0123456789ab''
      \<lparr>per_event_type = PACKED, per_payload = [], per_force = False\<rparr> t = (Ok resp, u) \<and>
      (\<exists>r. app_orders u ''ord-0123456789ab'' = Some r \<and> o_last_sequence r = 2 \<and> o_state r = S_PACKED) \<and>
      (\<forall>x \<in> set (enqueued u). s_key x = ''ord-0123456789ab'')"
    using k by (simp add: r publish_event_def get_order_record_def on_orders_def reserve_def bindC_def
        gets_def mk_lifecycle_event_def publish_http_def tryC_def publish_and_wait_def validate_payload_def
        publish_blocking_def produce_keyed_def accepting_broker_def ret_def commit_def register_def
        publish_order_snapshot_def publish_snapshot_def Let_def is_legal_transition_def)
  with t show ?thesis by (auto simp: demo_requests_def http_status_def)
qed

section \<open>Properties\<close>

text \<open>C18. The order store and the topic tell the same story. After any series of requests handled one
  after the other, none of them forced, none answered with a 502 or 504, and no order id drawn twice,
  the lifecycle records of every order are a beginning of its lifecycle, each a valid event numbered
  from 1, and the order, unless deleted, stands exactly at the last one.\<close>

theorem topic_tells_the_lifecycle:
  assumes "broker_ok B" and "pydantic_ok P" and "order_lifecycle_topic c \<noteq> order_snapshot_topic c"
    and "list_all request_ok qs" and "list_all unforced qs" and "distinct (concat (map new_ids qs))"
    and "serve B P c qs app_init = (codes, t)" and "set codes \<inter> {502, 504} = {}"
  shows "\<exists>es. filter (\<lambda>r. s_topic r = order_lifecycle_topic c \<and> s_key r = oid) (enqueued t) =
        map (lifecycle_record P c) es \<and>
      list_all (\<lambda>e. valid_event P e \<and> ev_order_id e = oid) es \<and>
      map (\<lambda>e. (ev_sequence e, ev_type e)) es =
        take (length es) [(1, ORDER_CREATED), (2, PACKED), (3, SHIPPED), (4, DELIVERED)] \<and>
      (\<forall>r. app_orders t oid = Some r \<longrightarrow> es \<noteq> [] \<and> o_last_sequence r = int (length es) \<and>
         o_state r = RESULTING_STATE (ev_type (last es)))"
proof -
  have init: "store_ok (app_orders app_init)" by (simp add: app_init_def)
  have "in_step P c t"
    by (rule in_step_serve [OF assms(1-3) init assms(4,5) in_step_init assms(6) _ assms(7,8)]) (simp add: app_init_def)
  then obtain es where "told P c oid t es" by (auto simp: in_step_def)
  then show ?thesis
    by (intro exI [of _ es]) (simp add: told_def lifecycle_log_def lifecycle_def step_of_def [abs_def] split: option.splits)
qed

theorem topic_tells_the_lifecycle_witness:
  "\<exists>t r. serve accepting_broker strict_pydantic default_settings demo_requests app_init = ([201, 200], t) \<and>
     app_orders t ''ord-0123456789ab'' = Some r \<and> 1 \<le> o_last_sequence r"
proof -
  obtain t r where t: "serve accepting_broker strict_pydantic default_settings demo_requests app_init = ([201, 200], t)"
    and r: "app_orders t ''ord-0123456789ab'' = Some r" using demo_served by blast
  have ok: "list_all request_ok demo_requests" "list_all unforced demo_requests" "distinct (concat (map new_ids demo_requests))"
    by (simp_all add: demo_requests_def create_order_request_ok_def demo_body_def demo_item_def valid_item_def valid_payment_def)
  have "1 \<le> o_last_sequence r"
    using topic_tells_the_lifecycle [OF accepting_broker_ok strict_pydantic_ok _ ok t, of "''ord-0123456789ab''"] r
    by (fastforce simp: default_settings_def Suc_le_eq)
  with t r show ?thesis by blast
qed

end
