(* ===== verification/Published_Snapshots.thy ===== *)
theory Published_Snapshots
  imports Published_Lifecycle
begin

text \<open>
  The compacted topic against the order store. A consumer that reads the order-snapshot topic keeps one
  entry per key, and drops the key at a tombstone; compaction leaves it the same table. This theory
  states what that table is: the order store itself, each order as its snapshot.
\<close>

section \<open>The table a reader of the snapshot topic builds\<close>

definition read_snapshot :: "settings \<Rightarrow> sent \<Rightarrow> (string \<rightharpoonup> wire) \<Rightarrow> (string \<rightharpoonup> wire)" where
  "read_snapshot c r m = (if s_topic r = order_snapshot_topic c then m(s_key r := s_value r) else m)"

definition snapshot_table :: "settings \<Rightarrow> sent list \<Rightarrow> (string \<rightharpoonup> wire)" where
  "snapshot_table c l = fold (read_snapshot c) l Map.empty"

lemma snapshot_table_simps [simp]:
  "snapshot_table c [] = Map.empty"
  "snapshot_table c (l @ [r]) = read_snapshot c r (snapshot_table c l)"
  "snapshot_table c (l @ [r, q]) = read_snapshot c q (read_snapshot c r (snapshot_table c l))"
  by (simp_all add: snapshot_table_def)

text \<open>The order store as that table would show it.\<close>

definition snapshots_of :: "order_store \<Rightarrow> (string \<rightharpoonup> wire)" where
  "snapshots_of st oid = map_option (\<lambda>r. json_dumps (as_snapshot r)) (st oid)"

lemma snapshots_of_simps [simp]:
  "snapshots_of Map.empty = Map.empty"
  "snapshots_of (st(oid \<mapsto> r)) = (snapshots_of st)(oid \<mapsto> json_dumps (as_snapshot r))"
  "snapshots_of (st(oid := None)) = (snapshots_of st)(oid := None)"
  by (simp_all add: snapshots_of_def fun_eq_iff)

definition mirrored :: "settings \<Rightarrow> order_app \<Rightarrow> bool" where
  "mirrored c s \<longleftrightarrow> snapshot_table c (enqueued s) = snapshots_of (app_orders s)"

section \<open>One request\<close>

lemma mirrored_create:
  assumes B: "broker_ok B" and P: "pydantic_ok P" and tk: "takes_snapshots B c"
    and tp: "order_lifecycle_topic c \<noteq> order_snapshot_topic c" and ok: "create_order_request_ok body"
    and run: "handle_request B P c (PostOrder hex eid now body) s = (code, t)" and fine: "code \<notin> {502, 504}"
    and old: "mirrored c s"
  shows "mirrored c t"
proof (cases "pay_amount (cor_payment body) = item_sum (cor_items body)")
  case False
  with ok run old show ?thesis by (auto simp: create_order_mismatch)
next
  case True
  from B P ok True show ?thesis
  proof (cases rule: create_order_proceeds [where c = c and hex = hex and eid = eid and now = now and s = s])
    case (created part off l)
    with run tk tp old show ?thesis
      by (auto simp: mirrored_def read_snapshot_def register_def Let_def)
  next
    case (failed code' t' l)
    with run fine show ?thesis by (auto simp: http_status_def)
  qed
qed

lemma mirrored_event:
  assumes B: "broker_ok B" and tk: "takes_snapshots B c"
    and tp: "order_lifecycle_topic c \<noteq> order_snapshot_topic c" and st: "store_ok (app_orders s)"
    and run: "handle_request B P c (PostEvent eid now oid body) s = (code, t)" and fine: "code \<notin> {502, 504}"
    and old: "mirrored c s"
  shows "mirrored c t"
proof (cases "app_orders s oid")
  case None
  with run old show ?thesis by (auto simp: publish_event_unknown)
next
  case (Some r)
  have r: "o_order_id r = oid" "0 \<le> o_last_sequence r"
    using store_okD [OF st Some] by (simp_all add: order_ok_def)
  show ?thesis
  proof (cases "validate_payload P (per_event_type body) (per_payload body)")
    case (Inl e)
    with Some run old show ?thesis by (auto simp: publish_event_malformed)
  next
    case (Inr m)
    show ?thesis
    proof (cases "per_force body \<or> is_legal_transition (per_event_type body) (Some (o_state r))")
      case False
      with Some Inr run old show ?thesis by (auto simp: publish_event_illegal)
    next
      case True
      from B Some Inr True r(2) show ?thesis
      proof (cases rule: publish_event_proceeds [where B = B and P = P and c = c and eid = eid and now = now
            and oid = oid and body = body and s = s])
        case (published part off l)
        with run tk tp old r(1) show ?thesis by (auto simp: mirrored_def read_snapshot_def)
      next
        case (failed code' t' l)
        with run fine show ?thesis by (auto simp: http_status_def)
      qed
    qed
  qed
qed

lemma mirrored_delete:
  assumes B: "broker_ok B" and run: "handle_request B P c (DeleteOrder oid) s = (code, t)"
    and fine: "code \<notin> {502, 504}" and old: "mirrored c s"
  shows "mirrored c t"
proof (cases "app_orders s oid")
  case None
  with run old show ?thesis by (auto simp: delete_order_unknown)
next
  case (Some r)
  with B show ?thesis
  proof (cases rule: delete_order_proceeds [where c = c])
    case (deleted part off)
    with run old show ?thesis by (auto simp: mirrored_def read_snapshot_def)
  next
    case (failed code' t' l)
    with run fine show ?thesis by (auto simp: http_status_def)
  qed
qed

lemma mirrored_request:
  assumes "broker_ok B" and "pydantic_ok P" and "takes_snapshots B c"
    and "order_lifecycle_topic c \<noteq> order_snapshot_topic c" and "store_ok (app_orders s)" and "request_ok q"
    and "handle_request B P c q s = (code, t)" and "code \<notin> {502, 504}" and "mirrored c s"
  shows "mirrored c t"
proof (cases q)
  case (PostOrder hex eid now body)
  with assms mirrored_create [OF assms(1-4) _ _ assms(8,9)] show ?thesis by auto
next
  case (PostEvent eid now oid body)
  with assms mirrored_event [OF assms(1,3,4,5) _ assms(8,9)] show ?thesis by auto
next
  case (DeleteOrder oid)
  with assms mirrored_delete [OF assms(1) _ assms(8,9)] show ?thesis by auto
next
  case (GetOrder oid)
  with assms show ?thesis
    by (auto simp: get_order_def get_order_record_def ret_def raise_def split: option.splits)
next
  case GetHealth
  with assms show ?thesis by auto
qed

lemma mirrored_serve:
  assumes "broker_ok B" and "pydantic_ok P" and "takes_snapshots B c"
    and "order_lifecycle_topic c \<noteq> order_snapshot_topic c" and "store_ok (app_orders s)"
    and "list_all request_ok qs" and "serve B P c qs s = (codes, t)" and "set codes \<inter> {502, 504} = {}"
    and "mirrored c s"
  shows "mirrored c t"
  using assms(5-9)
proof (induction qs arbitrary: s codes)
  case Nil
  then show ?case by simp
next
  case (Cons q qs)
  obtain code u where h: "handle_request B P c q s = (code, u)" by (cases "handle_request B P c q s")
  obtain codes' where sv: "serve B P c qs u = (codes', t)" "codes = code # codes'"
    using Cons.prems h by (auto split: prod.splits)
  have "mirrored c u"
    by (rule mirrored_request [OF assms(1-4) Cons.prems(1) _ h _ Cons.prems(5)]) (use Cons.prems sv(2) in auto)
  moreover have "store_ok (app_orders u)"
    using handle_request_ok [OF assms(1,2) Cons.prems(1) _ h] Cons.prems(2) by simp
  ultimately show ?case using Cons.IH [OF _ _ sv(1)] Cons.prems sv(2) by auto
qed

lemma accepting_takes_snapshots [simp]: "takes_snapshots accepting_broker c"
  by (simp add: takes_snapshots_def accepting_broker_def)

section \<open>Properties\<close>

text \<open>C14. The compacted snapshot topic is the order store. When the client's queue takes the snapshots and
  no request is answered with a 502 or a 504, any series of requests, forced transitions, refusals,
  re-creations and deletions included, leaves the topic such that a reader holding the newest record per
  key, without the keys at a tombstone, has exactly the held orders, each as its current snapshot.\<close>

theorem snapshot_topic_mirrors_store:
  assumes "broker_ok B" and "pydantic_ok P" and "takes_snapshots B c"
    and "order_lifecycle_topic c \<noteq> order_snapshot_topic c" and "list_all request_ok qs"
    and "serve B P c qs app_init = (codes, t)" and "set codes \<inter> {502, 504} = {}"
  shows "fold (\<lambda>r m. if s_topic r = order_snapshot_topic c then m(s_key r := s_value r) else m) (enqueued t) Map.empty =
    (\<lambda>oid. map_option (\<lambda>r. json_dumps (as_snapshot r)) (app_orders t oid))"
proof -
  have "mirrored c t"
    by (rule mirrored_serve [OF assms(1-4) _ assms(5-7)]) (simp_all add: app_init_def mirrored_def)
  then show ?thesis
    by (simp add: mirrored_def snapshot_table_def snapshots_of_def read_snapshot_def [abs_def] fun_eq_iff)
qed

theorem snapshot_topic_mirrors_store_witness:
  "\<exists>t r. serve accepting_broker strict_pydantic default_settings demo_requests app_init = ([201, 200], t) \<and>
     app_orders t ''ord-0123456789ab'' = Some r \<and> o_state r = S_PACKED \<and>
     fold (\<lambda>r m. if s_topic r = order_snapshot_topic default_settings then m(s_key r := s_value r) else m)
       (enqueued t) Map.empty ''ord-0123456789ab'' = Some (json_dumps (as_snapshot r))"
proof -
  obtain t r where t: "serve accepting_broker strict_pydantic default_settings demo_requests app_init = ([201, 200], t)"
    "app_orders t ''ord-0123456789ab'' = Some r" "o_state r = S_PACKED"
    using demo_served by blast
  have tp: "order_lifecycle_topic default_settings \<noteq> order_snapshot_topic default_settings"
    by (simp add: default_settings_def)
  have rq: "list_all request_ok demo_requests"
    by (simp add: demo_requests_def create_order_request_ok_def demo_body_def demo_item_def valid_item_def
        valid_payment_def)
  from fun_cong [OF snapshot_topic_mirrors_store [OF accepting_broker_ok strict_pydantic_ok
        accepting_takes_snapshots tp rq t(1)], of "''ord-0123456789ab''"] t
  show ?thesis by auto
qed

end
