(* ===== verification/Changelog.thy ===== *)
theory Changelog
  imports Local_Store
begin

text \<open>
  What the changelog is for: the local store of \<open>Local_Store\<close> is a table, the changelog is the
  series of its updates, and replaying the series rebuilds the table. The theory relates the records
  the store produces to what it holds, shows that broker compaction does not change what a replay
  gives, and what \<^verbatim>\<open>_drain\<close> and \<^verbatim>\<open>_restore_one\<close> do with a reader's answers: the rebuild when
  the last delivered record reaches the watermark, the stall when it cannot.
\<close>

section \<open>Replay as a specification\<close>

type_synonym entry = "string \<times> wire option"

definition replay :: "entry list \<Rightarrow> (string \<rightharpoonup> wire) \<Rightarrow> (string \<rightharpoonup> wire)" where
  "replay es m = foldl (\<lambda>m e. m(fst e := snd e)) m es"

text \<open>The newest value of a key among some entries, if it has one there.\<close>

definition newest :: "entry list \<Rightarrow> string \<rightharpoonup> wire option" where
  "newest es k = map_of (rev es) k"

text \<open>What log compaction may leave of a log: for every key, the newest value, except that a key
  whose newest record is a tombstone may vanish altogether.\<close>

definition compaction_of :: "entry list \<Rightarrow> entry list \<Rightarrow> bool" where
  "compaction_of es es' \<longleftrightarrow>
     (\<forall>k. newest es' k = newest es k \<or> (newest es k = Some None \<and> newest es' k = None))"

text \<open>The changelog records among the calls of a process: those the store's produce enqueued.\<close>

fun changelog_entry :: "kcall \<times> exn option \<Rightarrow> entry list" where
  "changelog_entry (Produce ByStore _ (Some k) v _, None) = [(k, v)]"
| "changelog_entry _ = []"

definition changelog_of :: "history \<Rightarrow> entry list" where
  "changelog_of h = concat (map changelog_entry h)"

text \<open>The store mirrors its changelog: \<open>part\<close> is the partition a key hashes to.\<close>

definition mirrors ::
    "'d engine \<Rightarrow> settings \<Rightarrow> string \<Rightarrow> (string \<Rightarrow> int) \<Rightarrow> ('d, 'x) local_state_scheme \<Rightarrow> bool" where
  "mirrors E c gid part s \<longleftrightarrow>
     (\<forall>k. held_contents E c gid s (part k) k = replay (changelog_of (trace s)) Map.empty k)"

section \<open>Lemmas on replay\<close>

lemma replay_simps [simp]:
  "replay [] m = m" "replay ((k, v) # es) m = replay es (m(k := v))"
  "replay (es @ es') m = replay es' (replay es m)"
  by (simp_all add: replay_def)

lemma replay_newest: "replay es m k = (case newest es k of None \<Rightarrow> m k | Some v \<Rightarrow> v)"
proof (induction es rule: rev_induct)
  case Nil
  then show ?case by (simp add: newest_def)
next
  case (snoc e es)
  then show ?case by (cases e) (simp add: newest_def)
qed

lemma replay_compaction:
  assumes "compaction_of es es'"
  shows "replay es' Map.empty = replay es Map.empty"
proof
  fix k
  show "replay es' Map.empty k = replay es Map.empty k"
    using assms by (auto simp: compaction_of_def replay_newest split: option.splits) (metis option.inject option.distinct(1))+
qed

lemma replay_other: "k \<notin> fst ` set es \<Longrightarrow> replay es m k = m k"
  by (induction es arbitrary: m) auto

lemma changelog_of_simps [simp]:
  "changelog_of [] = []" "changelog_of (h @ h') = changelog_of h @ changelog_of h'"
  "changelog_of (x # h) = changelog_entry x @ changelog_of h"
  by (simp_all add: changelog_of_def)

section \<open>Writing: the store and its changelog move together\<close>

lemma producer_poll_changelog:
  assumes "kafka_ok K" and "producer_poll K s = (r, t)"
  shows "r = Ok () \<and> changelog_of (trace t) = changelog_of (trace s)"
  by (rule producer_poll_run [of K s, OF kafka_okD(2) [OF assms(1)]]) (use assms(2) in auto)

lemma producer_flush_changelog:
  assumes "kafka_ok K" and "producer_flush K s = (r, t)"
  shows "(\<exists>x. r = Ok x) \<and> changelog_of (trace t) = changelog_of (trace s)"
  by (rule producer_flush_run [of K s, OF kafka_okD(1) [OF assms(1)]]) (use assms(2) in auto)

lemma local_publish_changelog:
  assumes K: "kafka_ok K" and pb: "local_publish K c gid oid v s = (Ok (), t)"
  shows "changelog_of (trace t) = changelog_of (trace s) @ [(oid, v)]"
proof -
  let ?p = "Produce ByStore (changelog_topic_for c gid) (Some oid) v []"
  have produced: "changelog_of (trace u') = changelog_of (trace u) @ [(oid, v)]"
    if "call K ?p u = (Ok (), u')" for u u' :: "'a client_scheme"
    using that by (cases rule: call_cases [of K u ?p]) auto
  show ?thesis
  proof (cases rule: call_cases [of K s ?p])
    case returned
    then have "producer_poll K (s\<lparr>trace := trace s @ [(?p, None)]\<rparr>) = (Ok (), t)"
      using pb by (simp add: local_publish_def Let_def bindC_def tryC_def)
    with producer_poll_changelog [OF K this] show ?thesis by simp
  next
    case (raised e)
    let ?s1 = "s\<lparr>trace := trace s @ [(?p, Some e)]\<rparr>"
    from pb raised(2) obtain b where e: "e = BufferError b"
      by (cases e) (auto simp: local_publish_def Let_def bindC_def tryC_def raise_def)
    obtain r2 s2 where s2: "producer_flush K ?s1 = (r2, s2)" by (metis surj_pair)
    obtain x where x: "r2 = Ok x" and c2: "changelog_of (trace s2) = changelog_of (trace s)"
      using producer_flush_changelog [OF K s2] by auto
    show ?thesis
    proof (cases rule: call_cases [of K s2 ?p])
      case returned
      then have "producer_poll K (s2\<lparr>trace := trace s2 @ [(?p, None)]\<rparr>) = (Ok (), t)"
        using pb raised(2) e s2 x by (simp add: local_publish_def Let_def bindC_def tryC_def)
      with producer_poll_changelog [OF K this] c2 show ?thesis by simp
    next
      case again: (raised e')
      from kafka_okD(3) [OF K again(1)] show ?thesis
        using pb raised(2) e s2 x again(2)
        by (auto simp: local_publish_def Let_def bindC_def tryC_def raise_def)
    qed
  qed
qed

text \<open>Opening and reading make no client call.\<close>

definition trace_eq :: "'x client_scheme \<Rightarrow> 'x client_scheme \<Rightarrow> bool" where
  "trace_eq s t \<longleftrightarrow> trace t = trace s"

lemma trace_eq_rules [simp]: "reflp trace_eq" "transp trace_eq"
  by (simp_all add: reflp_def transp_def trace_eq_def)

lemma keeps_trace_disk [keeps_rules]: "keeps trace_eq (on_disk f w)"
  by (auto simp: keeps_def on_disk_def trace_eq_def split: prod.splits option.splits)

lemma keeps_trace_store_for [keeps_rules]: "keeps trace_eq (store_for E c gid p)"
  unfolding store_for_def
  by (intro keeps_rules) (auto intro!: keeps_modify simp: trace_eq_def)

lemma keeps_trace_get [keeps_rules]: "keeps trace_eq (local_get E c gid p oid w)"
  unfolding local_get_def by (intro keeps_rules) (auto split: sum.splits intro: keeps_rules)

lemma keeps_trace_read [keeps_rules]: "keeps trace_eq (local_read E c gid p oid)"
  unfolding local_read_def
  by (intro keeps_rules) (auto split: option.splits sum.splits intro!: keeps_rules)

lemma local_write_changelog:
  assumes K: "kafka_ok K" and w: "local_write K E c gid p oid v s = (Ok (), t)"
  shows "changelog_of (trace t) = changelog_of (trace s) @ [(oid, Some v)]"
proof -
  from w obtain s1 s2 where
    "store_for E c gid p s = (Ok (), s1)"
    "on_disk (\<lambda>d. rd_put E d (path_for c gid p) oid v) (\<lambda>e. ''writing '' @ oid @ '': '' @ exn_text e) s1
       = (Ok (), s2)"
    and pb: "local_publish K c gid oid (Some v) s2 = (Ok (), t)"
    by (auto simp: local_write_def elim!: bindC_OkE)
  then have "trace s2 = trace s"
    using keepsD [OF keeps_trace_store_for] keepsD [OF keeps_trace_disk]
    by (fastforce simp: trace_eq_def)
  with local_publish_changelog [OF K pb] show ?thesis by simp
qed

lemma local_save_changelog:
  assumes K: "kafka_ok K" and E: "engine_ok E"
    and sv: "local_save K E c gid p oid f eid s = (Ok x, t)"
  defines "w \<equiv> encode_record (snd (next_record (stored_at E c gid s p oid) f eid))"
  shows "changelog_of (trace t) = changelog_of (trace s) @ [(oid, Some w)]"
    and "rd_contents E (disk t) = set_key (rd_contents E (disk s)) (path_for c gid p) oid (Some w)"
proof -
  from sv obtain prev s1 where rd: "local_read E c gid p oid s = (Ok prev, s1)"
    and wr: "local_write K E c gid p oid (encode_record (snd (next_record prev f eid))) s1 = (Ok (), t)"
    by (auto simp: local_save_def ret_def elim!: bindC_OkE split: prod.splits)
  have prev: "prev = stored_at E c gid s p oid" using local_read_run [OF E rd] by blast
  have "trace s1 = trace s" using keepsD [OF keeps_trace_read rd] by (simp add: trace_eq_def)
  with local_write_changelog [OF K wr] show "changelog_of (trace t) = changelog_of (trace s) @ [(oid, Some w)]"
    by (simp add: prev w_def)
  show "rd_contents E (disk t) = set_key (rd_contents E (disk s)) (path_for c gid p) oid (Some w)"
    using local_save_run [OF E sv] by (auto simp: w_def)
qed

lemma local_delete_changelog:
  assumes K: "kafka_ok K" and E: "engine_ok E" and dl: "local_delete K E c gid p oid s = (Ok b, t)"
  shows "changelog_of (trace t) = changelog_of (trace s) @ [(oid, None)]"
    and "rd_contents E (disk t) = set_key (rd_contents E (disk s)) (path_for c gid p) oid None"
proof -
  let ?del = "\<lambda>raw. if raw \<noteq> None then on_disk (\<lambda>d. rd_del E d (path_for c gid p) oid)
                    (\<lambda>e. ''deleting '' @ oid @ '': '' @ exn_text e) else ret ()"
  from dl obtain s1 raw s2 s3 where s1: "store_for E c gid p s = (Ok (), s1)"
    and s2: "local_get E c gid p oid ''deleting '' s1 = (Ok raw, s2)"
    and s3: "?del raw s2 = (Ok (), s3)"
    and pb: "local_publish K c gid oid None s3 = (Ok (), t)"
    by (auto simp: local_delete_def ret_def elim!: bindC_OkE)
  have kd: "keeps trace_eq (?del raw)" by (intro keeps_rules) simp
  have "trace_eq s2 s3" by (rule keepsD [OF kd s3])
  then have "trace s3 = trace s"
    using keepsD [OF keeps_trace_store_for s1] keepsD [OF keeps_trace_get s2]
    by (simp add: trace_eq_def)
  with local_publish_changelog [OF K pb]
  show "changelog_of (trace t) = changelog_of (trace s) @ [(oid, None)]" by simp
  show "rd_contents E (disk t) = set_key (rd_contents E (disk s)) (path_for c gid p) oid None"
    using local_delete_run [OF E dl] by auto
qed

lemma mirrors_step:
  assumes "mirrors E c gid part s"
    and "changelog_of (trace t) = changelog_of (trace s) @ [(oid, x)]"
    and "rd_contents E (disk t) = set_key (rd_contents E (disk s)) (path_for c gid (part oid)) oid x"
  shows "mirrors E c gid part t"
  unfolding mirrors_def
proof
  fix k
  have "held_contents E c gid s (part k) k = replay (changelog_of (trace s)) Map.empty k"
    using assms(1) by (simp add: mirrors_def)
  then show "held_contents E c gid t (part k) k = replay (changelog_of (trace t)) Map.empty k"
    by (auto simp: assms(2,3) held_contents_def set_key_def)
qed

text \<open>A series of saves and deletes, each to the partition its key hashes to; it stops at the first
  operation that does not return, as the process does.\<close>

fun store_writes ::
    "kafka \<Rightarrow> 'd engine \<Rightarrow> settings \<Rightarrow> string \<Rightarrow> (string \<Rightarrow> int) \<Rightarrow>
     (string \<times> (order_fold \<times> string) option) list \<Rightarrow> (('d, 'x) local_state_scheme, unit) comp" where
  "store_writes K E c gid part [] = ret ()"
| "store_writes K E c gid part ((oid, Some (f, eid)) # ws) =
     thenC (local_save K E c gid (part oid) oid f eid) (store_writes K E c gid part ws)"
| "store_writes K E c gid part ((oid, None) # ws) =
     thenC (local_delete K E c gid (part oid) oid) (store_writes K E c gid part ws)"

lemma store_writes_mirror:
  assumes K: "kafka_ok K" and E: "engine_ok E"
  shows "mirrors E c gid part s \<Longrightarrow> store_writes K E c gid part ws s = (Ok (), t) \<Longrightarrow>
    mirrors E c gid part t"
proof (induction ws arbitrary: s)
  case Nil
  then show ?case by (simp add: ret_def)
next
  case (Cons w ws)
  obtain oid y where w: "w = (oid, y)" by (cases w)
  obtain s1 where s1: "mirrors E c gid part s1" and rest: "store_writes K E c gid part ws s1 = (Ok (), t)"
  proof (cases y)
    case None
    with Cons.prems(2) w obtain b s1 where dl: "local_delete K E c gid (part oid) oid s = (Ok b, s1)"
      and rest: "store_writes K E c gid part ws s1 = (Ok (), t)"
      by (auto elim: bindC_OkE)
    show ?thesis
      by (rule that [OF mirrors_step [OF Cons.prems(1) local_delete_changelog [OF K E dl]] rest])
  next
    case (Some z)
    obtain f eid where z: "z = (f, eid)" by (cases z)
    with Some Cons.prems(2) w obtain x s1 where
      sv: "local_save K E c gid (part oid) oid f eid s = (Ok x, s1)"
      and rest: "store_writes K E c gid part ws s1 = (Ok (), t)"
      by (auto elim: bindC_OkE)
    show ?thesis
      by (rule that [OF mirrors_step [OF Cons.prems(1) local_save_changelog [OF K E sv]] rest])
  qed
  then show ?case by (rule Cons.IH)
qed

section \<open>Reading: draining a changelog partition\<close>

definition engine_total :: "'d engine \<Rightarrow> bool" where
  "engine_total E \<longleftrightarrow>
     (\<forall>d q. fst (rd_open E d q) = None) \<and> (\<forall>d q. fst (rd_destroy E d q) = None) \<and>
     (\<forall>d q k v. fst (rd_put E d q k v) = None) \<and> (\<forall>d q k. fst (rd_del E d q k) = None) \<and>
     (\<forall>d q k. \<exists>v. rd_get E d q k = Inr v)"

text \<open>What the reader answers from some history on: these messages, one per poll.\<close>

definition delivers :: "kafka \<Rightarrow> history \<Rightarrow> message list \<Rightarrow> bool" where
  "delivers K h ms \<longleftrightarrow>
     (\<forall>i < length ms.
        k_raises K (h @ replicate i (ReaderPoll, None)) ReaderPoll = None \<and>
        k_reader_poll K (h @ replicate (Suc i) (ReaderPoll, None)) = Polled (ms ! i))"

definition keyed :: "message \<Rightarrow> bool" where
  "keyed m \<longleftrightarrow> (\<exists>k. m_key m = Some k \<and> utf8_valid k)"

definition entry_of :: "message \<Rightarrow> entry" where
  "entry_of m = (the (m_key m), m_value m)"

definition live_after :: "message list \<Rightarrow> string list \<Rightarrow> string list" where
  "live_after ms live = foldl (\<lambda>l m. case m_value m of None \<Rightarrow> removeAll (the (m_key m)) l
     | Some _ \<Rightarrow> List.insert (the (m_key m)) l) live ms"

lemma delivers_Cons:
  assumes "delivers K h (m # ms)"
  shows "k_raises K h ReaderPoll = None" "k_reader_poll K (h @ [(ReaderPoll, None)]) = Polled m"
    "delivers K (h @ [(ReaderPoll, None)]) ms"
proof -
  have at: "k_raises K (h @ replicate i (ReaderPoll, None)) ReaderPoll = None \<and>
      k_reader_poll K (h @ replicate (Suc i) (ReaderPoll, None)) = Polled ((m # ms) ! i)"
    if "i \<le> length ms" for i
    using assms that unfolding delivers_def by (metis le_imp_less_Suc length_Cons)
  show "k_raises K h ReaderPoll = None" "k_reader_poll K (h @ [(ReaderPoll, None)]) = Polled m"
    using at [of 0] by simp_all
  show "delivers K (h @ [(ReaderPoll, None)]) ms"
    unfolding delivers_def using at [of "Suc _"] by (simp add: Suc_le_eq)
qed

lemma apply_changelog_total:
  assumes E: "engine_ok E" "engine_total E" and m: "keyed m"
  obtains d' where "apply_changelog E c gid p m (the (m_key m)) live s =
      (Ok (live_after [m] live), s\<lparr>disk := d'\<rparr>)"
    and "rd_contents E d' = (rd_contents E (disk s))(path_for c gid p :=
      replay [entry_of m] (rd_contents E (disk s) (path_for c gid p)))"
proof -
  let ?q = "path_for c gid p" and ?k = "the (m_key m)"
  show ?thesis
  proof (cases "m_value m")
    case (Some w)
    obtain d' where put: "rd_put E (disk s) ?q ?k w = (None, d')"
      using E(2) unfolding engine_total_def by (metis prod.collapse)
    show ?thesis
    proof (rule that [of d'])
      show "apply_changelog E c gid p m ?k live s = (Ok (live_after [m] live), s\<lparr>disk := d'\<rparr>)"
        using put Some by (simp add: apply_changelog_def Let_def bindC_def on_disk_def ret_def live_after_def)
      show "rd_contents E d' = (rd_contents E (disk s))(?q :=
          replay [entry_of m] (rd_contents E (disk s) ?q))"
        using engine_put [OF E(1) put] Some by (simp add: set_key_def entry_of_def)
    qed
  next
    case None
    obtain v where get: "rd_get E (disk s) ?q ?k = Inr v"
      using E(2) unfolding engine_total_def by blast
    have v: "v = rd_contents E (disk s) ?q ?k" using engine_okD(3) [OF E(1) get] .
    show ?thesis
    proof (cases "v = None")
      case True
      have "(rd_contents E (disk s))(?q := (rd_contents E (disk s) ?q)(?k := None)) = rd_contents E (disk s)"
        using v True by (auto simp: fun_eq_iff)
      then show ?thesis
        using get True None
        by (intro that [of "disk s"])
          (simp_all add: apply_changelog_def Let_def bindC_def ret_def gets_def live_after_def entry_of_def)
    next
      case False
      obtain d' where del: "rd_del E (disk s) ?q ?k = (None, d')"
        using E(2) unfolding engine_total_def by (metis prod.collapse)
      show ?thesis
      proof (rule that [of d'])
        show "apply_changelog E c gid p m ?k live s = (Ok (live_after [m] live), s\<lparr>disk := d'\<rparr>)"
          using del get False None
          by (simp add: apply_changelog_def Let_def bindC_def on_disk_def ret_def gets_def live_after_def)
        show "rd_contents E d' = (rd_contents E (disk s))(?q :=
            replay [entry_of m] (rd_contents E (disk s) ?q))"
          using engine_del [OF E(1) del] None by (simp add: set_key_def entry_of_def)
      qed
    qed
  qed
qed

text \<open>Delivered records are consumed one poll each as long as each of them is below the watermark
  when polled.\<close>

lemma drain_prefix:
  assumes E: "engine_ok E" "engine_total E"
  shows "delivers K (trace s) ms \<Longrightarrow> list_all keyed ms \<Longrightarrow> nxt < high \<Longrightarrow>
    list_all (\<lambda>m. m_offset m + 1 < high) (butlast ms) \<Longrightarrow>
    \<exists>d'. drain K E c gid p high (length ms + fuel) nxt records live s =
        drain K E c gid p high fuel (if ms = [] then nxt else m_offset (last ms) + 1)
          (records + int (length ms)) (live_after ms live)
          (s\<lparr>trace := trace s @ replicate (length ms) (ReaderPoll, None), disk := d'\<rparr>) \<and>
      rd_contents E d' = (rd_contents E (disk s))(path_for c gid p :=
        replay (map entry_of ms) (rd_contents E (disk s) (path_for c gid p)))"
proof (induction ms arbitrary: s nxt records live)
  case Nil
  show ?case by (rule exI [of _ "disk s"]) (simp add: live_after_def)
next
  case (Cons m ms)
  let ?q = "path_for c gid p" and ?s1 = "s\<lparr>trace := trace s @ [(ReaderPoll, None)]\<rparr>"
  note dl = delivers_Cons [OF Cons.prems(1)]
  have m: "keyed m" using Cons.prems(2) by simp
  then have key: "changelog_key m = Inr (the (m_key m))"
    by (auto simp: keyed_def changelog_key_def utf8_decode_def)
  obtain d1 where ap: "apply_changelog E c gid p m (the (m_key m)) live ?s1 =
      (Ok (live_after [m] live), ?s1\<lparr>disk := d1\<rparr>)"
    and d1: "rd_contents E d1 = (rd_contents E (disk s))(?q :=
      replay [entry_of m] (rd_contents E (disk s) ?q))"
    by (rule apply_changelog_total [OF E m, of c gid p live ?s1]) simp
  let ?s2 = "?s1\<lparr>disk := d1\<rparr>"
  have step: "drain K E c gid p high (length (m # ms) + fuel) nxt records live s =
      drain K E c gid p high (length ms + fuel) (m_offset m + 1) (records + 1) (live_after [m] live) ?s2"
    using Cons.prems(3) dl(1,2) key ap
    by (subst drain.simps) (simp add: ask_def bindC_def call_def gets_def)
  show ?case
  proof (cases "ms = []")
    case True
    then show ?thesis
      using step d1 by (intro exI [of _ d1]) (simp add: live_after_def)
  next
    case False
    have "delivers K (trace ?s2) ms" using dl(3) by simp
    moreover have "list_all keyed ms" "m_offset m + 1 < high"
      "list_all (\<lambda>m. m_offset m + 1 < high) (butlast ms)"
      using Cons.prems(2,4) False by simp_all
    ultimately obtain d' where
      "drain K E c gid p high (length ms + fuel) (m_offset m + 1) (records + 1) (live_after [m] live) ?s2 =
        drain K E c gid p high fuel (if ms = [] then m_offset m + 1 else m_offset (last ms) + 1)
          (records + 1 + int (length ms)) (live_after ms (live_after [m] live))
          (?s2\<lparr>trace := trace ?s2 @ replicate (length ms) (ReaderPoll, None), disk := d'\<rparr>)"
      and d': "rd_contents E d' = (rd_contents E (disk ?s2))(?q :=
        replay (map entry_of ms) (rd_contents E (disk ?s2) ?q))"
      using Cons.IH [of ?s2 "m_offset m + 1" "records + 1" "live_after [m] live"] by blast
    moreover have "replay (map entry_of (m # ms)) x = replay (map entry_of ms) (replay [entry_of m] x)"
      for x by (cases "entry_of m") simp
    ultimately show ?thesis
      using step False
      by (intro exI [of _ d']) (simp add: d1 live_after_def algebra_simps)
  qed
qed

section \<open>Rebuilding a partition\<close>

lemma local_destroy_total:
  assumes E: "engine_ok E" "engine_total E"
  obtains hs d' where "local_destroy E c gid p s = (Ok (), s\<lparr>handles := hs, disk := d'\<rparr>)"
    and "rd_contents E d' = (rd_contents E (disk s))(path_for c gid p := Map.empty)"
proof -
  let ?q = "path_for c gid p"
  let ?s1 = "if p \<in> handles s then s\<lparr>handles := handles s - {p}, disk := rd_close E (disk s) ?q\<rparr> else s"
  have c1: "rd_contents E (disk ?s1) = rd_contents E (disk s)" using engine_okD(2) [OF E(1)] by simp
  have s1: "?s1 = s\<lparr>handles := handles ?s1, disk := disk ?s1\<rparr>" by simp
  show ?thesis
  proof (cases "fs_exists E (disk ?s1) ?q")
    case False
    then have "rd_contents E (disk ?s1) = (rd_contents E (disk s))(?q := Map.empty)"
      using engine_reset(2) [OF E(1) False] c1 by (auto simp: fun_eq_iff)
    moreover have "local_destroy E c gid p s = (Ok (), ?s1)"
      using False by (simp add: local_destroy_def ret_def)
    ultimately show ?thesis using s1 by (intro that [where hs = "handles ?s1" and d' = "disk ?s1"]) simp_all
  next
    case True
    obtain d' where d: "rd_destroy E (disk ?s1) ?q = (None, d')"
      using E(2) unfolding engine_total_def by (metis prod.collapse)
    have "local_destroy E c gid p s = (Ok (), ?s1\<lparr>disk := d'\<rparr>)"
      using True d by (simp add: local_destroy_def on_disk_def)
    moreover have "?s1\<lparr>disk := d'\<rparr> = s\<lparr>handles := handles ?s1, disk := d'\<rparr>" by simp
    ultimately show ?thesis
      using engine_reset(1) [OF E(1) d] c1 by (intro that [where hs = "handles ?s1" and d' = d']) simp_all
  qed
qed

lemma store_for_total:
  assumes E: "engine_ok E" "engine_total E"
  obtains d' where "store_for E c gid p s = (Ok (), s\<lparr>handles := insert p (handles s), disk := d'\<rparr>)"
    and "rd_contents E d' = rd_contents E (disk s)"
proof (cases "p \<in> handles s")
  case True
  then show ?thesis
    by (intro that [of "disk s"]) (simp_all add: store_for_def ret_def insert_absorb)
next
  case False
  obtain d' where d: "rd_open E (disk s) (path_for c gid p) = (None, d')"
    using E(2) unfolding engine_total_def by (metis prod.collapse)
  have "rd_contents E d' = rd_contents E (disk s)"
    using engine_okD(1) [OF E(1), of "disk s" "path_for c gid p"] d by simp
  with d False show ?thesis
    by (intro that [of d']) (simp_all add: store_for_def bindC_def gets_def on_disk_def modify_def)
qed

text \<open>A reader whose calls do not fail, the changelog's metadata and watermarks, and what its polls
  deliver once it is assigned.\<close>

definition reader_quiet :: "kafka \<Rightarrow> bool" where
  "reader_quiet K \<longleftrightarrow>
     (\<forall>h topic p n. k_raises K h (ReaderListTopics topic) = None \<and>
        k_raises K h (ReaderWatermarks topic p) = None \<and>
        k_raises K h (ReaderAssign topic p n) = None \<and>
        k_raises K h ReaderPoll = None \<and> k_raises K h ReaderClose = None)"

definition assigned_history :: "settings \<Rightarrow> string \<Rightarrow> int \<Rightarrow> int \<Rightarrow> history \<Rightarrow> history" where
  "assigned_history c gid p low h =
     h @ [(ReaderListTopics (changelog_topic_for c gid), None),
          (ReaderWatermarks (changelog_topic_for c gid) p, None),
          (ReaderAssign (changelog_topic_for c gid) p low, None)]"

definition changelog_offers ::
    "kafka \<Rightarrow> settings \<Rightarrow> string \<Rightarrow> int \<Rightarrow> history \<Rightarrow> int \<Rightarrow> int \<Rightarrow> message list \<Rightarrow> bool" where
  "changelog_offers K c gid p h low high ms \<longleftrightarrow>
     (\<exists>ps. k_metadata K (take (length h + 1) (assigned_history c gid p low h)) = Some (TopicPartitions ps)
        \<and> p \<in> set ps) \<and>
     k_watermarks K (take (length h + 2) (assigned_history c gid p low h)) = (low, high) \<and>
     low < high \<and> delivers K (assigned_history c gid p low h) ms \<and> list_all keyed ms \<and>
     list_all (\<lambda>m. m_offset m + 1 < high) (butlast ms)"

text \<open>A full rebuild up to and including the drain, for any continuation of the reader.\<close>

lemma restore_body_full:
  assumes E: "engine_ok E" "engine_total E" and K: "reader_quiet K"
    and full: "state_rebuild c = FULL" and off: "changelog_offers K c gid p (trace s) low high ms"
  obtains d' hs where
    "rd_contents E d' = (rd_contents E (disk s))(path_for c gid p := replay (map entry_of ms) Map.empty)"
    and "p \<in> hs"
    and "restore_body K E c gid (length ms + fuel) p s =
      bindC (drain K E c gid p high fuel (if ms = [] then low else m_offset (last ms) + 1)
               (int (length ms)) (live_after ms []))
        (\<lambda>(records, keys). ret (low, high, records, keys))
        (s\<lparr>trace := assigned_history c gid p low (trace s) @ replicate (length ms) (ReaderPoll, None),
           handles := hs, disk := d'\<rparr>)"
proof -
  let ?topic = "changelog_topic_for c gid"
  let ?h = "assigned_history c gid p low (trace s)"
  let ?s1 = "s\<lparr>trace := trace s @ [(ReaderListTopics ?topic, None)]\<rparr>"
  let ?s2 = "s\<lparr>trace := trace s @ [(ReaderListTopics ?topic, None), (ReaderWatermarks ?topic p, None)]\<rparr>"
  obtain ps where meta: "k_metadata K (trace s @ [(ReaderListTopics ?topic, None)]) = Some (TopicPartitions ps)"
    "p \<in> set ps"
    and marks: "k_watermarks K (trace s @ [(ReaderListTopics ?topic, None),
       (ReaderWatermarks ?topic p, None)]) = (low, high)"
    and low: "low < high" and del: "delivers K ?h ms" and ky: "list_all keyed ms"
    and bl: "list_all (\<lambda>m. m_offset m + 1 < high) (butlast ms)"
    using off by (auto simp: changelog_offers_def assigned_history_def)
  have quiet: "k_raises K h (ReaderListTopics ?topic) = None" "k_raises K h (ReaderWatermarks ?topic p) = None"
    "k_raises K h (ReaderAssign ?topic p low) = None" for h
    using K by (auto simp: reader_quiet_def)
  have aw: "await_metadata K c gid p s = (Ok (), ?s1)"
    using meta quiet
    by (simp add: await_metadata_def Let_def bindC_def tryC_def ask_def call_def gets_def ret_def)
  obtain hs1 d1 where ds: "local_destroy E c gid p ?s2 = (Ok (), ?s2\<lparr>handles := hs1, disk := d1\<rparr>)"
    and d1: "rd_contents E d1 = (rd_contents E (disk s))(path_for c gid p := Map.empty)"
    by (rule local_destroy_total [OF E, of c gid p ?s2]) simp
  let ?s3 = "?s2\<lparr>handles := hs1, disk := d1\<rparr>"
  obtain d2 where so: "store_for E c gid p ?s3 = (Ok (), ?s3\<lparr>handles := insert p hs1, disk := d2\<rparr>)"
    and d2: "rd_contents E d2 = rd_contents E d1"
    by (rule store_for_total [OF E, of c gid p ?s3]) simp
  let ?s4 = "?s3\<lparr>handles := insert p hs1, disk := d2\<rparr>"
  let ?s5 = "?s4\<lparr>trace := ?h\<rparr>"
  have so': "store_for E c gid p ?s5 = (Ok (), ?s5)"
    by (simp add: store_for_def ret_def)
  have wm: "tryC (ask K (ReaderWatermarks ?topic p) (k_watermarks K)) h ?s1 = (Ok (low, high), ?s2)" for h
    using marks quiet by (simp add: tryC_def ask_def bindC_def call_def gets_def)
  have st: "start_offset E c gid p low ?s2 = (Ok low, ?s3)"
    using full ds by (simp add: start_offset_def bindC_def gets_def ret_def)
  have asg: "call K (ReaderAssign ?topic p low) ?s4 = (Ok (), ?s5)"
    using quiet by (simp add: call_def assigned_history_def)
  have "delivers K (trace ?s5) ms" using del by simp
  from drain_prefix [OF E this ky low bl, of c gid p fuel 0 "[]"]
  obtain d' where dr: "drain K E c gid p high (length ms + fuel) low 0 [] ?s5 =
      drain K E c gid p high fuel (if ms = [] then low else m_offset (last ms) + 1)
        (0 + int (length ms)) (live_after ms [])
        (?s5\<lparr>trace := trace ?s5 @ replicate (length ms) (ReaderPoll, None), disk := d'\<rparr>)"
    and d': "rd_contents E d' = (rd_contents E (disk ?s5))(path_for c gid p :=
        replay (map entry_of ms) (rd_contents E (disk ?s5) (path_for c gid p)))"
    by blast
  show ?thesis
  proof (rule that [where d' = d' and hs = "insert p hs1"])
    show "rd_contents E d' = (rd_contents E (disk s))(path_for c gid p := replay (map entry_of ms) Map.empty)"
      using d' d1 d2 by simp
    show "p \<in> insert p hs1" by simp
    show "restore_body K E c gid (length ms + fuel) p s =
      bindC (drain K E c gid p high fuel (if ms = [] then low else m_offset (last ms) + 1)
               (int (length ms)) (live_after ms []))
        (\<lambda>(records, keys). ret (low, high, records, keys))
        (s\<lparr>trace := ?h @ replicate (length ms) (ReaderPoll, None),
           handles := insert p hs1, disk := d'\<rparr>)"
      using low dr aw wm st so asg so' by (simp add: restore_body_def Let_def bindC_def)
  qed
qed

lemma restore_one_rebuilds:
  assumes E: "engine_ok E" "engine_total E" and K: "reader_quiet K"
    and full: "state_rebuild c = FULL" and off: "changelog_offers K c gid p (trace s) low high ms"
    and ms: "ms \<noteq> []" "high \<le> m_offset (last ms) + 1"
  obtains t where "restore_one K E c gid (length ms + fuel) p s = (Ok (), t)"
    and "held_contents E c gid t p = replay (map entry_of ms) Map.empty"
    and "\<And>q. q \<noteq> p \<Longrightarrow> held_contents E c gid t q = held_contents E c gid s q"
    and "position t p = Some high" and "p \<in> handles t"
proof -
  let ?h = "assigned_history c gid p low (trace s) @ replicate (length ms) (ReaderPoll, None)"
  from restore_body_full [OF E K full off, of fuel] obtain d' hs where
    d': "rd_contents E d' = (rd_contents E (disk s))(path_for c gid p := replay (map entry_of ms) Map.empty)"
    and hs: "p \<in> hs"
    and body: "restore_body K E c gid (length ms + fuel) p s =
      bindC (drain K E c gid p high fuel (if ms = [] then low else m_offset (last ms) + 1)
               (int (length ms)) (live_after ms []))
        (\<lambda>(records, keys). ret (low, high, records, keys))
        (s\<lparr>trace := ?h, handles := hs, disk := d'\<rparr>)"
    by blast
  let ?u = "s\<lparr>trace := ?h, handles := hs, disk := d'\<rparr>"
  have dr: "drain K E c gid p high fuel (m_offset (last ms) + 1) n l ?u = (Ok (n, int (length l)), ?u)"
    for n l
    using ms(2) by (subst drain.simps) (simp add: ret_def)
  have quiet: "k_raises K h ReaderClose = None" for h using K by (auto simp: reader_quiet_def)
  let ?t = "s\<lparr>trace := ?h @ [(ReaderClose, None)],
      markers := markers s @ [RESTORED p (int (length ms)) (int (length (live_after ms []))) low high],
      position := (position s)(p \<mapsto> high), handles := hs, disk := d'\<rparr>"
  have "restore_one K E c gid (length ms + fuel) p s = (Ok (), ?t)"
    using body dr ms(1) quiet
    by (simp add: restore_one_def bindC_def finallyC_def ret_def call_def modify_def)
  then show ?thesis
    by (rule that) (use d' hs in \<open>auto simp: held_contents_def\<close>)
qed

lemma restore_one_stalls:
  assumes E: "engine_ok E" "engine_total E" and K: "reader_quiet K"
    and full: "state_rebuild c = FULL" and off: "changelog_offers K c gid p (trace s) low high ms"
    and gap: "ms = [] \<or> m_offset (last ms) + 1 < high"
  defines "h \<equiv> assigned_history c gid p low (trace s) @ replicate (length ms) (ReaderPoll, None)"
  assumes eof: "k_reader_poll K (h @ [(ReaderPoll, None)]) = PartitionEOF"
    and none: "k_reader_poll K (h @ [(ReaderPoll, None), (ReaderPoll, None)]) = NoMessage"
  obtains e t where "restore_one K E c gid (length ms + Suc (Suc fuel)) p s =
      (Raise (StateStoreUnavailable e), t)"
proof -
  let ?nxt = "if ms = [] then low else m_offset (last ms) + 1"
  from restore_body_full [OF E K full off, of "Suc (Suc fuel)"] obtain d' hs where
    body: "restore_body K E c gid (length ms + Suc (Suc fuel)) p s =
      bindC (drain K E c gid p high (Suc (Suc fuel)) ?nxt (int (length ms)) (live_after ms []))
        (\<lambda>(records, keys). ret (low, high, records, keys)) (s\<lparr>trace := h, handles := hs, disk := d'\<rparr>)"
    unfolding h_def by blast
  have quiet: "k_raises K h ReaderClose = None" "k_raises K h ReaderPoll = None" for h
    using K by (auto simp: reader_quiet_def)
  have nxt: "?nxt < high" using gap off by (auto simp: changelog_offers_def)
  let ?u = "s\<lparr>trace := h, handles := hs, disk := d'\<rparr>"
  let ?u1 = "s\<lparr>trace := h @ [(ReaderPoll, None)], handles := hs, disk := d'\<rparr>"
  have d1: "drain K E c gid p high (Suc (Suc fuel)) ?nxt n l ?u = drain K E c gid p high (Suc fuel) ?nxt n l ?u1" for n l
    using nxt quiet eof by (subst drain.simps) (simp add: ask_def bindC_def call_def gets_def)
  have d2: "\<exists>e t. drain K E c gid p high (Suc fuel) ?nxt n l ?u1 = (Raise (StateStoreUnavailable e), t)" for n l
    using nxt quiet none by (subst drain.simps) (simp add: ask_def bindC_def call_def gets_def raise_def)
  obtain e t where et: "drain K E c gid p high (Suc (Suc fuel)) ?nxt (int (length ms)) (live_after ms []) ?u
      = (Raise (StateStoreUnavailable e), t)"
    using d1 [of "int (length ms)" "live_after ms []"] d2 [of "int (length ms)" "live_after ms []"] by auto
  have "restore_body K E c gid (length ms + Suc (Suc fuel)) p s = (Raise (StateStoreUnavailable e), t)"
    by (simp only: body bindC_def et prod.case outcome.case)
  then have "restore_one K E c gid (length ms + Suc (Suc fuel)) p s =
      (Raise (StateStoreUnavailable e), t\<lparr>trace := trace t @ [(ReaderClose, None)]\<rparr>)"
    using quiet by (simp add: restore_one_def bindC_def finallyC_def call_def)
  then show ?thesis by (rule that)
qed

lemma newest_filter:
  "newest (filter (\<lambda>e. part (fst e) = p) es) k = (if part k = p then newest es k else None)"
proof (induction es rule: rev_induct)
  case Nil
  then show ?case by (simp add: newest_def)
next
  case (snoc e es)
  then show ?case by (cases e) (auto simp: newest_def)
qed

lemma replay_partition:
  "part k = p \<Longrightarrow> replay (filter (\<lambda>e. part (fst e) = p) es) Map.empty k = replay es Map.empty k"
  by (simp add: replay_newest newest_filter)

section \<open>A scripted client\<close>

text \<open>A client that never fails and whose changelog reader delivers the given messages, then one
  end-of-partition event, then nothing: the instance the witnesses run with.\<close>

definition polls_in :: "history \<Rightarrow> nat" where
  "polls_in h = length (filter (\<lambda>x. fst x = ReaderPoll) h)"

definition script_kafka :: "message list \<Rightarrow> int \<Rightarrow> kafka" where
  "script_kafka ms high =
     \<lparr>k_raises = (\<lambda>_ _. None), k_remaining = (\<lambda>_. 0), k_reports = (\<lambda>_. []),
      k_assignment = (\<lambda>_. []), k_committed = (\<lambda>_. []),
      k_metadata = (\<lambda>_. Some (TopicPartitions [0])), k_watermarks = (\<lambda>_. (0, high)),
      k_reader_poll = (\<lambda>h. if 1 \<le> polls_in h \<and> polls_in h \<le> length ms then Polled (ms ! (polls_in h - 1))
         else if polls_in h = length ms + 1 then PartitionEOF else NoMessage),
      k_now = (\<lambda>_. 0), k_monotonic = (\<lambda>_. 0)\<rparr>"

lemma polls_in_simps [simp]:
  "polls_in [] = 0" "polls_in (x # h) = (if fst x = ReaderPoll then Suc (polls_in h) else polls_in h)"
  "polls_in (h @ h') = polls_in h + polls_in h'" "polls_in (replicate n (ReaderPoll, None)) = n"
  by (simp_all add: polls_in_def)

lemma script_kafka_ok [simp]: "kafka_ok (script_kafka ms high)"
  by (simp add: kafka_ok_def script_kafka_def)

lemma script_kafka_quiet [simp]: "reader_quiet (script_kafka ms high)"
  by (simp add: reader_quiet_def script_kafka_def)

lemma script_delivers: "polls_in h = 0 \<Longrightarrow> delivers (script_kafka ms high) h ms"
  by (simp add: delivers_def script_kafka_def)

lemma script_offers:
  assumes "polls_in h = 0" and "0 < high" and "list_all keyed ms"
    and "list_all (\<lambda>m. m_offset m + 1 < high) (butlast ms)"
  shows "changelog_offers (script_kafka ms high) c gid 0 h 0 high ms"
  using assms script_delivers [of "assigned_history c gid 0 0 h" ms high]
  by (simp add: changelog_offers_def assigned_history_def)
    (simp add: script_kafka_def)

lemma map_engine_total [simp]: "engine_total map_engine"
  by (simp add: engine_total_def map_engine_def)

definition fresh_process :: "map_disk local_state" where
  "fresh_process =
     \<lparr>trace = [], markers = [], position = Map.empty, mem_folds = Map.empty,
      mem_handled = Map.empty, handles = {}, disk = (Map.empty, Map.empty)\<rparr>"

definition demo_fold :: order_fold where
  "demo_fold = \<lparr>f_order_id = ''ord-1'', f_last_sequence = 1, f_state = Some S_CREATED\<rparr>"

definition demo_row :: stored where
  "demo_row = \<lparr>rec_fold = demo_fold, rec_event_id = JStr ''ev-1'', rec_handled = 1\<rparr>"

definition demo_record :: message where
  "demo_record =
     \<lparr>m_topic = ''c'', m_partition = 0, m_offset = 0, m_key = Some ''ord-1'',
      m_value = Some (encode_record demo_row), m_headers = [], m_timestamp = None\<rparr>"

lemma demo_keyed [simp]: "keyed demo_record"
  by (simp add: keyed_def demo_record_def)

lemma demo_save:
  "local_save (script_kafka ms high) map_engine c ''g'' 0 ''ord-1'' demo_fold ''ev-1'' fresh_process =
     (Ok \<lparr>so_applied = True, so_handled_count = 1\<rparr>,
      fresh_process\<lparr>
        trace := [(Produce ByStore (changelog_topic_for c ''g'') (Some ''ord-1'')
                    (Some (encode_record demo_row)) [], None), (ProducerPoll, None)],
        handles := {0},
        disk := ([path_for c ''g'' 0 \<mapsto> [''ord-1'' \<mapsto> encode_record demo_row]], Map.empty)\<rparr>)"
proof -
  have nr: "next_record None demo_fold ''ev-1'' = (\<lparr>so_applied = True, so_handled_count = 1\<rparr>, demo_row)"
    by (simp add: next_record_def demo_fold_def demo_row_def)
  show ?thesis
    by (simp add: local_save_def local_read_def local_get_def local_write_def local_publish_def store_for_def
        on_disk_def bindC_def gets_def ret_def modify_def tryC_def call_def ask_def producer_poll_def
        serve_reports_def Let_def nr fresh_process_def map_engine_def dir_of_def script_kafka_def)
qed

section \<open>Properties\<close>

text \<open>C3. The local store is recoverable from its changelog. Let a process apply any series of saves
  and deletes, each returning normally, to a store that mirrors its changelog (an empty one does).
  Then another process that rebuilds partition p in full, on any disk, from any compaction of the
  changelog records of that partition, ends with exactly the rows the first process holds for it.\<close>

theorem changelog_rebuilds_store:
  fixes s t :: "('d, 'x) local_state_scheme" and s' :: "('e, 'y) local_state_scheme"
  assumes "kafka_ok K" and "engine_ok E" and "mirrors E c gid part s"
    and "store_writes K E c gid part ws s = (Ok (), t)"
    and "reader_quiet K'" and "engine_ok E'" and "engine_total E'" and "state_rebuild c = FULL"
    and "changelog_offers K' c gid p (trace s') low high ms"
    and "ms \<noteq> []" and "high \<le> m_offset (last ms) + 1"
    and "compaction_of (filter (\<lambda>e. part (fst e) = p) (changelog_of (trace t))) (map entry_of ms)"
  shows "\<exists>u. restore_one K' E' c gid (length ms + fuel) p s' = (Ok (), u) \<and>
     (\<forall>k. part k = p \<longrightarrow> held_contents E' c gid u p k = held_contents E c gid t p k)"
proof -
  obtain u where u: "restore_one K' E' c gid (length ms + fuel) p s' = (Ok (), u)"
    and held: "held_contents E' c gid u p = replay (map entry_of ms) Map.empty"
    using restore_one_rebuilds [OF assms(6,7,5,8,9,10,11)] by metis
  have "mirrors E c gid part t" using store_writes_mirror [OF assms(1,2,3,4)] .
  then have "held_contents E' c gid u p k = held_contents E c gid t p k" if "part k = p" for k
    using that replay_compaction [OF assms(12)] replay_partition [of part k p "changelog_of (trace t)"]
    by (auto simp: held mirrors_def)
  with u show ?thesis by blast
qed

theorem changelog_rebuilds_store_witness:
  "\<exists>t u. store_writes (script_kafka [] 0) map_engine default_settings ''g'' (\<lambda>_. 0)
        [(''ord-1'', Some (demo_fold, ''ev-1''))] fresh_process = (Ok (), t) \<and>
     restore_one (script_kafka [demo_record] 1) map_engine default_settings ''g'' 1 0 fresh_process = (Ok (), u) \<and>
     held_contents map_engine default_settings ''g'' u 0 ''ord-1'' =
       held_contents map_engine default_settings ''g'' t 0 ''ord-1''"
proof -
  define t where "t = snd (local_save (script_kafka [] 0) map_engine default_settings ''g'' 0 ''ord-1''
    demo_fold ''ev-1'' fresh_process)"
  have t: "store_writes (script_kafka [] 0) map_engine default_settings ''g'' (\<lambda>_. 0)
      [(''ord-1'', Some (demo_fold, ''ev-1''))] fresh_process = (Ok (), t)"
    by (simp add: t_def bindC_def demo_save ret_def)
  have log: "map entry_of [demo_record] = changelog_of (trace t)"
    by (simp add: t_def demo_save entry_of_def demo_record_def)
  have m: "mirrors map_engine default_settings ''g'' (\<lambda>_. 0) fresh_process"
    by (simp add: mirrors_def held_contents_def map_engine_def dir_of_def fresh_process_def)
  have off: "changelog_offers (script_kafka [demo_record] 1) default_settings ''g'' 0 (trace fresh_process) 0 1 [demo_record]"
    by (rule script_offers) (simp_all add: fresh_process_def)
  have comp: "compaction_of (filter (\<lambda>e. (0::int) = 0) (changelog_of (trace t))) (map entry_of [demo_record])"
    by (simp only: log compaction_of_def) simp
  have full: "state_rebuild default_settings = FULL" by (simp add: default_settings_def)
  from changelog_rebuilds_store [OF script_kafka_ok map_engine_ok m t script_kafka_quiet map_engine_ok
      map_engine_total full off _ _ comp, of 0] t
  show ?thesis by (auto simp: demo_record_def)
qed

text \<open>C27. A rebuild that has to cross a transaction marker never finishes. When the last offset before
  the watermark is not a record the reader delivers (the commit marker of a transaction, or a record
  of an aborted one), the reader reports the end of the partition and then nothing, and the rebuild
  raises \<^verbatim>\<open>StateStoreUnavailable\<close> although every record was replayed.\<close>

theorem restore_stalls_before_marker:
  assumes "engine_ok E" and "engine_total E" and "reader_quiet K" and "state_rebuild c = FULL"
    and "changelog_offers K c gid p (trace s) low high ms"
    and "ms \<noteq> []" and "m_offset (last ms) + 2 = high"
    and "k_reader_poll K (assigned_history c gid p low (trace s) @
           replicate (length ms + 1) (ReaderPoll, None)) = PartitionEOF"
    and "k_reader_poll K (assigned_history c gid p low (trace s) @
           replicate (length ms + 2) (ReaderPoll, None)) = NoMessage"
  shows "\<exists>e t. restore_one K E c gid (length ms + 2 + fuel) p s = (Raise (StateStoreUnavailable e), t)"
proof -
  let ?h = "assigned_history c gid p low (trace s)"
  have r: "?h @ replicate (length ms + n) (ReaderPoll, None) =
      (?h @ replicate (length ms) (ReaderPoll, None)) @ replicate n (ReaderPoll, None)" for n
    by (simp add: replicate_add)
  have fuel: "length ms + 2 + fuel = length ms + Suc (Suc fuel)" by simp
  have gap: "ms = [] \<or> m_offset (last ms) + 1 < high" using assms(7) by simp
  have eof: "k_reader_poll K ((?h @ replicate (length ms) (ReaderPoll, None)) @ [(ReaderPoll, None)]) = PartitionEOF"
    using assms(8) r [of 1] by simp
  have none: "k_reader_poll K ((?h @ replicate (length ms) (ReaderPoll, None)) @
      [(ReaderPoll, None), (ReaderPoll, None)]) = NoMessage"
    using assms(9) r [of 2] by (simp add: numeral_2_eq_2)
  obtain e t where "restore_one K E c gid (length ms + Suc (Suc fuel)) p s = (Raise (StateStoreUnavailable e), t)"
    by (rule restore_one_stalls [OF assms(1-5) gap eof none])
  then show ?thesis unfolding fuel by blast
qed

theorem restore_stalls_before_marker_witness:
  "\<exists>e t. restore_one (script_kafka [demo_record] 2) map_engine default_settings ''g'' 3 0 fresh_process =
     (Raise (StateStoreUnavailable e), t)"
proof -
  have off: "changelog_offers (script_kafka [demo_record] 2) default_settings ''g'' 0 (trace fresh_process) 0 2 [demo_record]"
    by (rule script_offers) (simp_all add: fresh_process_def)
  have full: "state_rebuild default_settings = FULL" by (simp add: default_settings_def)
  have "\<exists>e t. restore_one (script_kafka [demo_record] 2) map_engine default_settings ''g''
      (length [demo_record] + 2 + 0) 0 fresh_process = (Raise (StateStoreUnavailable e), t)"
    by (rule restore_stalls_before_marker [OF map_engine_ok map_engine_total script_kafka_quiet full off])
      (simp_all add: demo_record_def script_kafka_def assigned_history_def fresh_process_def)
  then show ?thesis by (simp add: numeral_3_eq_3)
qed

text \<open>C13. The sequence guard of the local store. A save that returns leaves one row for the order: a
  new order gets the fold with one delivery counted; for a known order the delivery count goes up by
  one and the fold moves only to a strictly higher sequence number, in which case, and only then,
  the save reports itself applied. The rows of all other orders and partitions are untouched.\<close>

theorem local_save_guard:
  assumes "local_ok E c gid s" and "f_order_id f = oid"
    and "local_save K E c gid p oid f eid s = (Ok out, t)"
  shows "\<exists>row. stored_at E c gid t p oid = Some row \<and> so_handled_count out = rec_handled row \<and>
     (case stored_at E c gid s p oid of
        None \<Rightarrow> rec_fold row = f \<and> rec_handled row = 1 \<and> (so_applied out \<longleftrightarrow> 0 < f_last_sequence f)
      | Some old \<Rightarrow> rec_handled row = rec_handled old + 1 \<and>
          (so_applied out \<longleftrightarrow> f_last_sequence (rec_fold old) < f_last_sequence f) \<and>
          rec_fold row = (if so_applied out then f else rec_fold old)) \<and>
     (\<forall>p' oid'. (p', oid') \<noteq> (p, oid) \<longrightarrow> stored_at E c gid t p' oid' = stored_at E c gid s p' oid')"
  using local_save_stored [OF assms]
  by (auto simp: next_record_def Let_def fun_eq_iff split: option.splits)

theorem local_save_guard_witness:
  "\<exists>t row. local_save (script_kafka [] 0) map_engine default_settings ''g'' 0 ''ord-1'' demo_fold ''ev-1''
       fresh_process = (Ok \<lparr>so_applied = True, so_handled_count = 1\<rparr>, t) \<and>
     stored_at map_engine default_settings ''g'' t 0 ''ord-1'' = Some row \<and> rec_handled row = 1"
proof -
  have ok: "local_ok map_engine default_settings ''g'' fresh_process"
  proof -
    have "rd_contents map_engine (disk fresh_process) q = Map.empty" for q
      by (simp add: map_engine_def dir_of_def fresh_process_def)
    then show ?thesis by (simp add: local_ok_def decodable_def held_contents_def)
  qed
  have f: "f_order_id demo_fold = ''ord-1''" by (simp add: demo_fold_def)
  from local_save_guard [OF ok f demo_save [of "[]" 0 default_settings]]
  show ?thesis by (auto simp: demo_save)
qed

text \<open>Whatever order the deliveries of one order's folds arrive in, and however often, the row ends
  at the highest sequence number and counts every delivery.\<close>

lemma store_writes_converge:
  assumes K: "kafka_ok K" and ok: "local_ok E c gid s"
    and "store_writes K E c gid part (map (\<lambda>f. (oid, Some (f, eid f))) fs) s = (Ok (), t)"
    and "list_all (\<lambda>f. f_order_id f = oid) fs" and "stored_at E c gid s (part oid) oid = Some r"
  shows "\<exists>row. stored_at E c gid t (part oid) oid = Some row \<and>
     rec_handled row = rec_handled r + int (length fs) \<and>
     f_last_sequence (rec_fold row) = foldl max (f_last_sequence (rec_fold r)) (map f_last_sequence fs)"
  using ok assms(3-5)
proof (induction fs arbitrary: s r)
  case Nil
  then show ?case by (simp add: ret_def)
next
  case (Cons f fs)
  from Cons.prems(2) obtain x s1 where sv: "local_save K E c gid (part oid) oid f (eid f) s = (Ok x, s1)"
    and rest: "store_writes K E c gid part (map (\<lambda>f. (oid, Some (f, eid f))) fs) s1 = (Ok (), t)"
    by (auto elim: bindC_OkE)
  have f: "f_order_id f = oid" using Cons.prems(3) by simp
  from local_save_stored [OF Cons.prems(1) f sv]
  have ok1: "local_ok E c gid s1"
    and st1: "stored_at E c gid s1 (part oid) oid = Some (snd (next_record (Some r) f (eid f)))"
    using Cons.prems(4) by auto
  from Cons.IH [OF ok1 rest _ st1] Cons.prems(3) show ?case
    by (auto simp: next_record_def Let_def max_def)
qed

end
