(* ===== verification/Store_Progress.thy ===== *)
theory Store_Progress
  imports Changelog
begin

text \<open>
  The operations of the local store on an engine that does not fail: they return, with the values
  the contents determine, and the only client calls they make are those of the changelog record.
\<close>

section \<open>Reading\<close>

text \<open>The process after an engine operation on one partition: a handle more, another disk.\<close>

definition on_partition :: "int \<Rightarrow> 'd \<Rightarrow> ('d, 'x) local_state_scheme \<Rightarrow> ('d, 'x) local_state_scheme" where
  "on_partition p d s = s\<lparr>handles := insert p (handles s), disk := d\<rparr>"

lemma on_partition_simps [simp]:
  "trace (on_partition p d s) = trace s" "markers (on_partition p d s) = markers s"
  "position (on_partition p d s) = position s" "disk (on_partition p d s) = d"
  "on_partition p d (on_partition p d' s) = on_partition p d s"
  "on_partition p d (s\<lparr>markers := ms\<rparr>) = (on_partition p d s)\<lparr>markers := ms\<rparr>"
  by (simp_all add: on_partition_def)

lemma store_for_progress:
  assumes "engine_ok E" "engine_total E"
  obtains d where "store_for E c gid p s = (Ok (), on_partition p d s)"
    and "rd_contents E d = rd_contents E (disk s)"
  by (rule store_for_total [OF assms, of c gid p s]) (auto simp: on_partition_def intro: that)

lemma local_read_progress:
  assumes ok: "local_ok E c gid s" and tot: "engine_total E"
  obtains d where "local_read E c gid p oid s = (Ok (stored_at E c gid s p oid), on_partition p d s)"
    and "rd_contents E d = rd_contents E (disk s)"
proof -
  have E: "engine_ok E" using ok by (simp add: local_ok_def)
  obtain d where d: "store_for E c gid p s = (Ok (), on_partition p d s)"
    and eq: "rd_contents E d = rd_contents E (disk s)" by (rule store_for_progress [OF E tot])
  obtain v where v: "rd_get E d (path_for c gid p) oid = Inr v"
    using tot unfolding engine_total_def by blast
  have v': "v = held_contents E c gid s p oid"
    using engine_okD(3) [OF E v] eq by (simp add: held_contents_def)
  have g: "local_get E c gid p oid what (on_partition p d s) = (Ok v, on_partition p d s)" for what
    using v by (simp add: local_get_def ret_def)
  have "local_read E c gid p oid s = (Ok (stored_at E c gid s p oid), on_partition p d s)"
  proof (cases v)
    case None
    then show ?thesis
      using d g v' by (simp add: local_read_def bindC_def ret_def stored_at_def)
  next
    case (Some w)
    moreover obtain r where "decode_record oid w = Inr r"
      using ok v' Some by (metis decodable_def local_ok_def)
    ultimately show ?thesis
      using d g v' by (auto simp: local_read_def bindC_def ret_def stored_at_def)
  qed
  with eq show ?thesis by (rule that [rotated])
qed

lemma local_load_progress:
  assumes "local_ok E c gid s" and "engine_total E"
  obtains d where "local_load E c gid p oid s = (Ok (local_fold E c gid s p oid), on_partition p d s)"
    and "rd_contents E d = rd_contents E (disk s)"
  by (rule local_read_progress [OF assms, of p oid])
    (auto simp: local_load_def bindC_def ret_def local_fold_def intro: that)

section \<open>Saving\<close>

text \<open>A save reaches its changelog record with the row written; what the broker says decides the rest.\<close>

lemma local_save_reaches_publish:
  fixes p oid
  assumes ok: "local_ok E c gid s" and tot: "engine_total E"
  defines "prev \<equiv> stored_at E c gid s p oid"
  obtains d where "local_save K E c gid p oid f eid s =
      bindC (local_publish K c gid oid (Some (encode_record (snd (next_record prev f eid)))))
        (\<lambda>_. ret (fst (next_record prev f eid))) (on_partition p d s)"
    and "rd_contents E d = set_key (rd_contents E (disk s)) (path_for c gid p) oid
      (Some (encode_record (snd (next_record prev f eid))))"
proof -
  let ?w = "encode_record (snd (next_record prev f eid))"
  have E: "engine_ok E" using ok by (simp add: local_ok_def)
  obtain d1 where d1: "local_read E c gid p oid s = (Ok prev, on_partition p d1 s)"
    and eq1: "rd_contents E d1 = rd_contents E (disk s)"
    unfolding prev_def by (rule local_read_progress [OF ok tot])
  obtain d2 where d2: "store_for E c gid p (on_partition p d1 s) = (Ok (), on_partition p d2 s)"
    and eq2: "rd_contents E d2 = rd_contents E d1"
    by (rule store_for_progress [OF E tot, of c gid p "on_partition p d1 s"]) simp
  obtain d3 where d3: "rd_put E d2 (path_for c gid p) oid ?w = (None, d3)"
    using tot unfolding engine_total_def by (metis prod.collapse)
  have "rd_contents E d3 = set_key (rd_contents E (disk s)) (path_for c gid p) oid (Some ?w)"
    using engine_put [OF E d3] eq1 eq2 by auto
  moreover have "local_save K E c gid p oid f eid s =
      bindC (local_publish K c gid oid (Some ?w)) (\<lambda>_. ret (fst (next_record prev f eid))) (on_partition p d3 s)"
  proof -
    let ?wrap = "\<lambda>e. ''writing '' @ oid @ '': '' @ exn_text e"
    have put: "on_disk (\<lambda>d. rd_put E d (path_for c gid p) oid ?w) ?wrap (on_partition p d2 s) =
        (Ok (), on_partition p d3 s)"
      using d3 by (simp add: on_disk_def on_partition_def)
    have "local_save K E c gid p oid f eid s = bindC (store_for E c gid p) (\<lambda>_.
        bindC (on_disk (\<lambda>d. rd_put E d (path_for c gid p) oid ?w) ?wrap) (\<lambda>_.
        bindC (local_publish K c gid oid (Some ?w)) (\<lambda>_. ret (fst (next_record prev f eid))))) (on_partition p d1 s)"
      unfolding local_save_def bindC_OkI [of "local_read E c gid p oid", OF d1] local_write_def bindC_assoc
        case_prod_beta Let_def by (rule refl)
    then show ?thesis
      unfolding bindC_OkI [of "store_for E c gid p", OF d2] bindC_OkI [of "on_disk _ ?wrap", OF put] .
  qed
  ultimately show ?thesis by (intro that)
qed

section \<open>A broker that accepts everything\<close>

lemma local_publish_accepting:
  assumes "k_raises K = (\<lambda>_ _. None)" and "local_publish K c gid oid v s = (r, t)"
  shows "r = Ok () \<and> trace t = trace s @
    [(Produce ByStore (changelog_topic_for c gid) (Some oid) v [], None), (ProducerPoll, None)]"
proof -
  let ?s1 = "s\<lparr>trace := trace s @ [(Produce ByStore (changelog_topic_for c gid) (Some oid) v [], None)]\<rparr>"
  have pub: "local_publish K c gid oid v s = producer_poll K ?s1"
    using assms(1) by (simp add: local_publish_def Let_def bindC_def tryC_def call_def)
  show ?thesis
    by (rule producer_poll_run [of K ?s1]) (use assms pub in auto)
qed

lemma local_delete_accepting:
  assumes "k_raises K = (\<lambda>_ _. None)" and "local_delete K E c gid p oid s = (Ok b, t)"
  shows "trace t = trace s @
    [(Produce ByStore (changelog_topic_for c gid) (Some oid) None [], None), (ProducerPoll, None)]"
proof -
  let ?del = "\<lambda>raw. if raw \<noteq> None then on_disk (\<lambda>d. rd_del E d (path_for c gid p) oid)
                    (\<lambda>e. ''deleting '' @ oid @ '': '' @ exn_text e) else ret ()"
  from assms(2) obtain s1 raw s2 s3 where s1: "store_for E c gid p s = (Ok (), s1)"
    and s2: "local_get E c gid p oid ''deleting '' s1 = (Ok raw, s2)"
    and s3: "?del raw s2 = (Ok (), s3)"
    and pb: "local_publish K c gid oid None s3 = (Ok (), t)"
    by (auto simp: local_delete_def ret_def elim!: bindC_OkE)
  have kd: "keeps trace_eq (?del raw)" by (intro keeps_rules) simp
  have "trace_eq s2 s3" by (rule keepsD [OF kd s3])
  then have "trace s3 = trace s"
    using keepsD [OF keeps_trace_store_for s1] keepsD [OF keeps_trace_get s2]
    by (simp add: trace_eq_def)
  with local_publish_accepting [OF assms(1) pb] show ?thesis by simp
qed

end
