(* ===== verification/Call_Traces.thy ===== *)
theory Call_Traces
  imports Runtime Changelog
begin

text \<open>
  Which client calls a computation can make. \<open>only Q\<close> relates a state to one reached by calls that
  all satisfy \<open>Q\<close>; the rules say of each operation of the store, the router and the consume loop which
  calls have to satisfy it. They are the \<open>keeps\<close> rules of the development for this relation, from
  which the ordering and addressing properties are derived by choosing \<open>Q\<close>.
\<close>

definition only :: "(kcall \<Rightarrow> bool) \<Rightarrow> 'x client_scheme \<Rightarrow> 'x client_scheme \<Rightarrow> bool" where
  "only Q s t \<longleftrightarrow> (\<exists>l. trace t = trace s @ l \<and> list_all (\<lambda>x. Q (fst x)) l)"

text \<open>The calls behind a changelog record.\<close>

definition store_calls :: "(kcall \<Rightarrow> bool) \<Rightarrow> bool" where
  "store_calls Q \<longleftrightarrow> Q ProducerFlush \<and> Q ProducerPoll \<and> (\<forall>topic k v. Q (Produce ByStore topic k v []))"

lemma store_callsD:
  assumes "store_calls Q"
  shows "Q ProducerFlush" "Q ProducerPoll" "Q (Produce ByStore topic k v [])"
  using assms by (auto simp: store_calls_def)

lemma only_rules [simp]: "reflp (only Q)" "transp (only Q)"
proof -
  show "reflp (only Q)" by (auto simp: reflp_def only_def)
  show "transp (only Q)" by (fastforce simp: transp_def only_def)
qed

lemma only_trans: "only Q s t \<Longrightarrow> only Q t u \<Longrightarrow> only Q s u"
  using only_rules(2) by (meson transpD)

lemma only_trace_eq: "trace t = trace s \<Longrightarrow> only Q s t"
  by (auto simp: only_def)

lemma keeps_only_of_trace_eq: "keeps trace_eq m \<Longrightarrow> keeps (only Q) m"
  by (auto simp: keeps_def trace_eq_def intro: only_trace_eq)

section \<open>The client\<close>

lemma keeps_only_call [keeps_rules]: "Q k \<Longrightarrow> keeps (only Q) (call K k)"
  by (auto simp: keeps_def call_def only_def split: option.splits)

lemma keeps_only_mark [keeps_rules]: "keeps (only Q) (mark m)"
  by (auto simp: keeps_def only_def)

lemma keeps_only_ask [keeps_rules]: "Q k \<Longrightarrow> keeps (only Q) (ask K k f)"
  unfolding ask_def by (intro keeps_rules) simp_all

lemma keeps_only_serve [keeps_rules]: "keeps (only Q) (serve_reports rs)"
proof (rule keepsI)
  fix s :: "'a client_scheme"
  show "only Q s (snd (serve_reports rs s))"
    by (rule serve_reports_frame [of rs s]) (simp add: only_trace_eq)
qed

lemma keeps_only_flush [keeps_rules]: "Q ProducerFlush \<Longrightarrow> keeps (only Q) (producer_flush K)"
  unfolding producer_flush_def by (intro keeps_rules) (auto split: prod.splits intro!: keeps_rules)

lemma keeps_only_poll [keeps_rules]: "Q ProducerPoll \<Longrightarrow> keeps (only Q) (producer_poll K)"
  unfolding producer_poll_def by (intro keeps_rules) simp_all

section \<open>The local store\<close>

lemma keeps_only_local_publish [keeps_rules]:
  assumes "store_calls Q"
  shows "keeps (only Q) (local_publish K c gid oid v)"
  unfolding local_publish_def Let_def
  by (intro keeps_rules) (auto intro!: keeps_rules split: exn.splits simp: store_callsD [OF assms])

lemmas keeps_only_disk [keeps_rules] =
  keeps_trace_disk [THEN keeps_only_of_trace_eq] keeps_trace_store_for [THEN keeps_only_of_trace_eq]
  keeps_trace_get [THEN keeps_only_of_trace_eq] keeps_trace_read [THEN keeps_only_of_trace_eq]

lemma keeps_only_write [keeps_rules]: "store_calls Q \<Longrightarrow> keeps (only Q) (local_write K E c gid p oid v)"
  unfolding local_write_def by (intro keeps_rules) simp_all

lemma keeps_only_load [keeps_rules]: "keeps (only Q) (local_load E c gid p oid)"
  unfolding local_load_def by (intro keeps_rules) simp_all

lemma keeps_only_save [keeps_rules]: "store_calls Q \<Longrightarrow> keeps (only Q) (local_save K E c gid p oid f eid)"
  unfolding local_save_def by (intro keeps_rules) (auto split: prod.splits intro!: keeps_rules)

lemma keeps_only_delete [keeps_rules]: "store_calls Q \<Longrightarrow> keeps (only Q) (local_delete K E c gid p oid)"
  unfolding local_delete_def by (intro keeps_rules) simp_all

lemma keeps_only_local_flush [keeps_rules]: "Q ProducerFlush \<Longrightarrow> keeps (only Q) (local_flush K)"
  unfolding local_flush_def by (intro keeps_rules) (auto intro!: keeps_rules split: prod.splits)

section \<open>The router\<close>

lemma keeps_only_router [keeps_rules]:
  assumes "Q ProducerFlush" and "Q (Produce ByRouter topic (m_key m) (m_value m) hdrs)"
  shows "keeps (only Q) (router_publish K c topic m hdrs)"
  unfolding router_publish_def
  by (intro keeps_rules)
    (auto intro!: keeps_rules assms split: exn.splits prod.splits option.splits sum.splits)

lemma keeps_only_retry:
  assumes "Q ProducerFlush"
    and "\<And>hs. distinct (map fst hs) \<Longrightarrow> map_of hs HDR_ATTEMPT = Some (py_str a) \<Longrightarrow>
           Q (Produce ByRouter (retry_topic c) (m_key m) (m_value m) hs)"
  shows "keeps (only Q) (to_retry K c m og sv g a e)"
  unfolding to_retry_def Let_def
  by (auto intro!: keeps_rules assms simp: provenance_def split: option.splits)

lemma keeps_only_dead_letter:
  assumes "Q ProducerFlush"
    and "\<And>hs. Q (Produce ByRouter (dlq_topic c) (m_key m) (m_value m) hs)"
  shows "keeps (only Q) (to_dead_letter K c m og sv g a e)"
  unfolding to_dead_letter_def by (intro keeps_rules) (auto intro: assms)

lemma keeps_only_source:
  assumes "Q ProducerFlush"
    and "\<And>hs. distinct (map fst hs) \<Longrightarrow> map_of hs HDR_ATTEMPT = Some (py_str a) \<Longrightarrow>
           Q (Produce ByRouter (og_topic og) (m_key m) (m_value m) hs)"
  shows "keeps (only Q) (to_source K c m og sv g a)"
  unfolding to_source_def by (intro keeps_rules) (auto intro!: assms simp: provenance_def)

section \<open>Committing\<close>

lemma keeps_only_direct_note [keeps_rules]:
  "Q (CommitOffset (m_topic m) (m_partition m) (m_offset m + 1)) \<Longrightarrow> keeps (only Q) (direct_note K m)"
  unfolding direct_note_def by (intro keeps_rules) (auto intro!: keeps_rules split: exn.splits)

lemma keeps_only_modify_frame: "(\<And>s. trace (f s) = trace s) \<Longrightarrow> keeps (only Q) (modify f)"
  by (auto simp: keeps_def modify_def intro: only_trace_eq)

lemma keeps_only_tx_note [keeps_rules]:
  "Q BeginTransaction \<Longrightarrow> keeps (only Q) (tx_note K tid m)"
  unfolding tx_note_def begin_if_needed_def fenced_or_raise_def raise_if_fenced_def
  by (intro keeps_rules) (auto intro!: keeps_rules keeps_only_modify_frame split: exn.splits)

section \<open>The consume loop\<close>

lemma keeps_only_rewind [keeps_rules]:
  "Q (Seek (m_topic m) (m_partition m) (m_offset m)) \<Longrightarrow> keeps (only Q) (rewind C m)"
  unfolding rewind_def by (intro keeps_rules) (auto intro!: keeps_rules split: exn.splits)

text \<open>What the handling of a message can call, by the parts a consumer is built from; \<open>n\<close> is the attempt
  its header carries.\<close>

locale contained_consumer =
  fixes Q :: "kcall \<Rightarrow> bool" and C :: "('d, 'x) local_state_scheme consumer" and K E fuel m n
  assumes kafka: "cn_kafka C = K"
    and store: "cn_store C = local_ops K E (cn_settings C) (cn_group_id C) fuel"
    and calls: "store_calls Q"
    and note_calls: "keeps (only Q) (cs_note (cn_commits C) m)"
    and handler_calls: "\<And>et h ev. cn_handlers C et = Some h \<Longrightarrow> keeps (only Q) (h ev)"
    and seek: "Q (Seek (m_topic m) (m_partition m) (m_offset m))"
    and attempt: "n = attempt_of (decode_headers m)"
    and retry: "\<And>hs. n < retry_max_attempts (cn_settings C) \<Longrightarrow> distinct (map fst hs) \<Longrightarrow>
      map_of hs HDR_ATTEMPT = Some (py_str (n + 1)) \<Longrightarrow>
      Q (Produce ByRouter (retry_topic (cn_settings C)) (m_key m) (m_value m) hs)"
    and dead: "\<And>hs. Q (Produce ByRouter (dlq_topic (cn_settings C)) (m_key m) (m_value m) hs)"
begin

lemma keeps_commit: "keeps (only Q) (commit_message C m)"
  unfolding commit_message_def by (rule note_calls)

lemma keeps_route_failure: "keeps (only Q) (route_failure C m exc event n)"
proof -
  have r: "keeps (only Q) (to_retry K (cn_settings C) m (origin_from_message m) (cn_name C) (cn_group_id C) (n + 1) exc)"
    if "n < retry_max_attempts (cn_settings C)"
    using that by (intro keeps_only_retry retry store_callsD(1) [OF calls])
  have d: "keeps (only Q) (to_dead_letter K (cn_settings C) m (origin_from_message m) (cn_name C) (cn_group_id C) n exc)"
    by (intro keeps_only_dead_letter dead store_callsD(1) [OF calls])
  have inner: "keeps (only Q)
      (if \<not> (retryable \<and> n < retry_max_attempts (cn_settings C)) then
         thenC (mark x) (thenC (to_dead_letter K (cn_settings C) m (origin_from_message m) (cn_name C)
           (cn_group_id C) n exc) (thenC (mark y) (ret True)))
       else thenC (to_retry K (cn_settings C) m (origin_from_message m) (cn_name C) (cn_group_id C) (n + 1) exc)
         (thenC (mark z) (ret True)))" for retryable x y z
    by (cases "n < retry_max_attempts (cn_settings C)") (auto intro!: keeps_rules r d)
  show ?thesis
    unfolding route_failure_def Let_def kafka
    by (intro keeps_bind keeps_try inner only_rules)
      (auto intro!: keeps_rules keeps_commit seek split: exn.splits)
qed

lemma keeps_save_fold: "keeps (only Q) (save_fold C ev f p)"
  unfolding save_fold_def store local_ops_def using calls by (intro keeps_rules) (auto intro!: keeps_rules)

lemma keeps_crash: "keeps (only Q) (crash_if_configured C point ev)"
  unfolding crash_if_configured_def by (intro keeps_rules) simp_all

lemma keeps_persist: "keeps (only Q) (persist_and_commit C m ev f p)"
proof -
  have "keeps (only Q) (st_flush (cn_store C))"
    unfolding store local_ops_def using store_callsD(1) [OF calls] by (simp add: keeps_only_local_flush)
  then show ?thesis
    unfolding persist_and_commit_def
    by (intro keeps_rules keeps_save_fold keeps_commit keeps_crash) simp_all
qed

lemma keeps_run_handler: "keeps (only Q) (run_handler C ev a)"
proof -
  have h: "keeps (only Q) (case cn_handlers C (ev_type ev) of None \<Rightarrow> ret () | Some h \<Rightarrow> h ev)"
    using handler_calls by (cases "cn_handlers C (ev_type ev)") (auto intro!: keeps_rules)
  have f: "keeps (only Q) (case maybe_fail (cn_settings C) ev a of Some e \<Rightarrow> raise e | None \<Rightarrow> ret ())"
    by (auto intro!: keeps_rules split: option.splits)
  show ?thesis
    unfolding run_handler_def by (intro keeps_rules f h) (auto intro!: keeps_rules split: exn.splits)
qed

lemma keeps_fold_message: "keeps (only Q) (fold_message C m ev n)"
proof -
  have l: "keeps (only Q) (st_load (cn_store C) p oid)" for p oid
    unfolding store local_ops_def by (simp add: keeps_only_load)
  show ?thesis
    unfolding fold_message_def Let_def case_prod_beta
    by (intro keeps_rules l keeps_run_handler)
      (auto intro!: keeps_rules keeps_route_failure keeps_persist split: option.splits)
qed

lemma keeps_handle_message: "keeps (only Q) (handle_message C m)"
proof -
  have t: "keeps (only Q) (handle_tombstone C m p)" for p
    unfolding handle_tombstone_def Let_def store local_ops_def using calls
    by (intro keeps_rules keeps_commit) (auto intro!: keeps_rules keeps_commit)
  have k: "keeps (only Q) (log_key m)"
    unfolding log_key_def by (auto intro!: keeps_rules split: option.splits)
  show ?thesis
    unfolding handle_message_def Let_def attempt [symmetric]
    by (auto intro!: keeps_rules t k keeps_commit keeps_route_failure keeps_fold_message
        split: option.splits sum.splits)
qed

end

end
