(* ===== verification/Exactly_Once.thy ===== *)
theory Exactly_Once
  imports Runtime_Commit
begin

text \<open>
  The consume loop under \<^verbatim>\<open>PROCESSING_GUARANTEE=exactly_once\<close>: which calls fall inside a
  transaction, and what happens when one does not commit. The transactional client is the parameter
  \<open>kafka\<close> as before; what is used of it here is documented behaviour of \<^verbatim>\<open>librdkafka\<close>, that a
  producer with a \<^verbatim>\<open>transactional.id\<close> refuses to produce while no transaction is open
  (\<^verbatim>\<open>_STATE\<close>, -172).
\<close>

section \<open>Open transactions\<close>

fun tx_effect :: "bool \<Rightarrow> kcall \<times> exn option \<Rightarrow> bool" where
  "tx_effect b (BeginTransaction, None) = True"
| "tx_effect b (CommitTransaction, None) = False"
| "tx_effect b (AbortTransaction, None) = False"
| "tx_effect b _ = b"

definition in_transaction :: "history \<Rightarrow> bool" where
  "in_transaction h = foldl tx_effect False h"

definition needs_transaction :: "kafka \<Rightarrow> bool" where
  "needs_transaction K \<longleftrightarrow> (\<forall>h who topic k v hs. \<not> in_transaction h \<longrightarrow>
     k_raises K h (Produce who topic k v hs) = Some (KafkaException (-172) ''Erroneous state''))"

definition transactional_consumer ::
    "('d, 'x) process_scheme consumer \<Rightarrow> kafka \<Rightarrow> 'd engine \<Rightarrow> nat \<Rightarrow> string \<Rightarrow> bool" where
  "transactional_consumer C K E fuel tid \<longleftrightarrow>
     cn_kafka C = K \<and> exactly_once (cn_settings C) \<and>
     cn_store C = local_ops K E (cn_settings C) (cn_group_id C) fuel \<and>
     cn_commits C = tx_ops K (cn_settings C) tid"

text \<open>A handler that only writes its log lines and counts, as those of the three services do.\<close>

fun handler_line :: "marker \<Rightarrow> bool" where
  "handler_line (HandlerRan _ _) = True"
| "handler_line _ = False"

definition inert :: "('d, 'x) process_scheme consumer \<Rightarrow> lifecycle_event \<Rightarrow> bool" where
  "inert C ev \<longleftrightarrow> (case cn_handlers C (ev_type ev) of
     None \<Rightarrow> True
   | Some h \<Rightarrow> (\<forall>s. \<exists>ms n. h ev s = (Ok (), s\<lparr>markers := markers s @ ms, counts := n\<rparr>) \<and>
       list_all handler_line ms))"

lemma inert_run:
  assumes "inert C ev"
  obtains ms n where "case cn_handlers C (ev_type ev) of
     None \<Rightarrow> s\<lparr>markers := markers s @ ms, counts := n\<rparr> = s
   | Some h \<Rightarrow> h ev s = (Ok (), s\<lparr>markers := markers s @ ms, counts := n\<rparr>)"
    and "list_all handler_line ms"
proof (cases "cn_handlers C (ev_type ev)")
  case None
  then show ?thesis by (intro that [where ms = "[]" and n = "counts s"]) simp_all
next
  case (Some h)
  with assms have "\<exists>ms n. h ev s = (Ok (), s\<lparr>markers := markers s @ ms, counts := n\<rparr>) \<and> list_all handler_line ms"
    by (simp add: inert_def)
  then obtain ms n where "h ev s = (Ok (), s\<lparr>markers := markers s @ ms, counts := n\<rparr>) \<and> list_all handler_line ms"
    by (elim exE)
  with Some show ?thesis by (intro that [where ms = ms and n = n]) simp_all
qed

text \<open>The handling of a message by an inert handler, over the local store on an engine that works: the
  write, from a state that differs in markers, counts and handles only.\<close>

lemma handle_message_local:
  assumes P: "pydantic_ok (cn_pydantic C)" and m: "carries C m ev" and i: "inert C ev"
    and f: "maybe_fail (cn_settings C) ev (attempt_of (decode_headers m)) = None"
    and st: "cn_store C = local_ops K E (cn_settings C) (cn_group_id C) fuel"
    and ok: "local_ok E (cn_settings C) (cn_group_id C) s" and tot: "engine_total E"
  defines "cur \<equiv> local_fold E (cn_settings C) (cn_group_id C) s (m_partition m) (ev_order_id ev)"
  obtains d ms n where "handle_message C m s =
      persist_and_commit C m ev (fst (apply_event cur ev)) (m_partition m)
        ((on_partition (m_partition m) d s)\<lparr>markers := markers s @
           map (\<lambda>v. VIOLATION (as_log_fields v)) (reported cur ev) @ ms, counts := n\<rparr>)"
    and "rd_contents E d = rd_contents E (disk s)" and "list_all handler_line ms"
proof -
  obtain d where d: "local_load E (cn_settings C) (cn_group_id C) (m_partition m) (ev_order_id ev) s =
      (Ok cur, on_partition (m_partition m) d s)" and eq: "rd_contents E d = rd_contents E (disk s)"
    unfolding cur_def by (rule local_load_progress [OF ok tot])
  define s2 where "s2 = (on_partition (m_partition m) d s)\<lparr>markers := markers s @
     map (\<lambda>v. VIOLATION (as_log_fields v)) (reported cur ev)\<rparr>"
  obtain ms n where h: "case cn_handlers C (ev_type ev) of
      None \<Rightarrow> s2\<lparr>markers := markers s2 @ ms, counts := n\<rparr> = s2
    | Some h \<Rightarrow> h ev s2 = (Ok (), s2\<lparr>markers := markers s2 @ ms, counts := n\<rparr>)"
    and hl: "list_all handler_line ms" by (rule inert_run [OF i])
  have ld: "st_load (cn_store C) (m_partition m) (ev_order_id ev) s = (Ok cur, on_partition (m_partition m) d s)"
    using st d by (simp add: local_ops_def)
  have "handle_message C m s = persist_and_commit C m ev (fst (apply_event cur ev)) (m_partition m)
      (s2\<lparr>markers := markers s2 @ ms, counts := n\<rparr>)"
    by (rule handle_message_fine [OF P m ld f, where ?s2.0 = s2]) (use h in \<open>auto simp: s2_def\<close>)
  then show ?thesis using eq hl by (intro that [where ms = ms and n = n and d = d]) (simp_all add: s2_def)
qed

section \<open>A consumer to run\<close>

definition tx_settings :: settings where
  "tx_settings = default_settings\<lparr>processing_guarantee := EXACTLY_ONCE\<rparr>"

definition tx_kafka :: kafka where
  "tx_kafka = (script_kafka [] 0)\<lparr>k_raises := (\<lambda>h k. case k of
     Produce who topic key v hs \<Rightarrow>
       if in_transaction h then None else Some (KafkaException (-172) ''Erroneous state'')
   | CommitTransaction \<Rightarrow> Some (KafkaException 7 ''timed out'')
   | _ \<Rightarrow> None)\<rparr>"

definition tx_consumer :: "map_disk process consumer" where
  "tx_consumer =
     \<lparr>cn_kafka = tx_kafka, cn_settings = tx_settings, cn_name = ''inventory'', cn_handlers = Map.empty,
      cn_store = local_ops tx_kafka map_engine tx_settings (group_id_for tx_settings ''inventory'') 0,
      cn_commits = tx_ops tx_kafka tx_settings ''tx'', cn_pydantic = strict_pydantic, cn_fresh = ''fresh''\<rparr>"

definition tx_process :: "map_disk process" where
  "tx_process =
     \<lparr>trace = [], markers = [], position = Map.empty, mem_folds = Map.empty,
      mem_handled = Map.empty, handles = {}, disk = (Map.empty, Map.empty), tx_open = False,
      tx_messages = 0, tx_opened_at = 0, tx_touched = [], tx_offsets = [], counts = (\<lambda>_. 0)\<rparr>"

lemma tx_settings_simps [simp]:
  "processing_guarantee tx_settings = EXACTLY_ONCE" "exactly_once tx_settings"
  "order_snapshot_topic tx_settings = ''order-snapshot''" "maybe_fail tx_settings ev n = None"
  by (simp_all add: tx_settings_def default_settings_def exactly_once_def maybe_fail_def)

lemma tx_consumer_ok: "transactional_consumer tx_consumer tx_kafka map_engine 0 ''tx''"
  by (simp add: transactional_consumer_def tx_consumer_def)

lemma tx_kafka_needs: "needs_transaction tx_kafka"
  by (simp add: needs_transaction_def tx_kafka_def)

lemma tx_carries: "carries tx_consumer demo_message demo_event"
proof -
  have "is_ascii ''ord-1''" by (simp add: is_ascii_def)
  then show ?thesis
    by (simp add: carries_def for_us_def tx_consumer_def decode_headers_def utf8_decode_ascii)
qed

lemma tx_process_ok: "local_ok map_engine c gid tx_process"
proof -
  have "rd_contents map_engine (disk tx_process) q = Map.empty" for q
    by (simp add: map_engine_def dir_of_def tx_process_def)
  then show ?thesis by (simp add: local_ok_def decodable_def held_contents_def)
qed

section \<open>Properties\<close>

text \<open>C29. Under exactly-once the fold is written before the transaction that is to hold it. A
  lifecycle message handled while no transaction is open (so the first one of every transaction,
  unless a message that is only skipped opened it) fails on its changelog record, which the
  transactional client refuses, and the loop ends with \<^verbatim>\<open>StateStoreUnavailable\<close>; no transaction
  was begun.\<close>

theorem first_write_outside_transaction:
  assumes "transactional_consumer C K E fuel tid" and "needs_transaction K" and "engine_total E"
    and "local_ok E (cn_settings C) (cn_group_id C) s" and "pydantic_ok (cn_pydantic C)"
    and "carries C m ev" and "inert C ev"
    and "maybe_fail (cn_settings C) ev (attempt_of (decode_headers m)) = None"
    and "\<not> in_transaction (trace s)"
  shows "\<exists>why t v. handle_message C m s = (Raise (StateStoreUnavailable why), t) \<and>
    trace t = trace s @ [(Produce ByStore (changelog_topic_for (cn_settings C) (cn_group_id C))
      (Some (ev_order_id ev)) (Some v) [], Some (KafkaException (-172) ''Erroneous state''))]"
proof -
  let ?c = "cn_settings C" and ?g = "cn_group_id C" and ?p = "m_partition m"
  have C: "exactly_once ?c" "cn_store C = local_ops K E ?c ?g fuel"
    using assms(1) by (auto simp: transactional_consumer_def)
  define cur where "cur = local_fold E ?c ?g s ?p (ev_order_id ev)"
  obtain d ms n where h: "handle_message C m s = persist_and_commit C m ev (fst (apply_event cur ev)) ?p
      ((on_partition ?p d s)\<lparr>markers := markers s @ map (\<lambda>v. VIOLATION (as_log_fields v)) (reported cur ev) @ ms,
        counts := n\<rparr>)" and eq: "rd_contents E d = rd_contents E (disk s)"
    unfolding cur_def by (rule handle_message_local [OF assms(5,6,7,8) C(2) assms(4,3)])
  let ?s1 = "(on_partition ?p d s)\<lparr>markers := markers s @ map (\<lambda>v. VIOLATION (as_log_fields v)) (reported cur ev) @ ms,
      counts := n\<rparr>"
  have ok1: "local_ok E ?c ?g ?s1"
    using assms(4) eq by (simp add: local_ok_def held_contents_def)
  obtain d' where "local_save K E ?c ?g ?p (ev_order_id ev) (fst (apply_event cur ev)) (event_id ev) ?s1 =
      bindC (local_publish K ?c ?g (ev_order_id ev) (Some (encode_record (snd (next_record
         (stored_at E ?c ?g ?s1 ?p (ev_order_id ev)) (fst (apply_event cur ev)) (event_id ev))))))
        (\<lambda>_. ret (fst (next_record
         (stored_at E ?c ?g ?s1 ?p (ev_order_id ev)) (fst (apply_event cur ev)) (event_id ev))))
        (on_partition ?p d' ?s1)"
    by (rule local_save_reaches_publish [OF ok1 assms(3)])
  then show ?thesis
    using assms(2,9) C(2) unfolding h
    by (simp add: persist_and_commit_def C(1) save_fold_def local_ops_def local_publish_def Let_def
        bindC_def tryC_def call_def needs_transaction_def raise_def enqueue_error_def)
qed

theorem first_write_outside_transaction_witness:
  "\<exists>why t. handle_message tx_consumer demo_message tx_process = (Raise (StateStoreUnavailable why), t) \<and>
     BeginTransaction \<notin> fst ` set (trace t)"
proof -
  have i: "inert tx_consumer demo_event" by (simp add: inert_def tx_consumer_def)
  have "\<exists>why t v. handle_message tx_consumer demo_message tx_process = (Raise (StateStoreUnavailable why), t) \<and>
    trace t = trace tx_process @ [(Produce ByStore
      (changelog_topic_for (cn_settings tx_consumer) (cn_group_id tx_consumer))
      (Some (ev_order_id demo_event)) (Some v) [], Some (KafkaException (-172) ''Erroneous state''))]"
    by (rule first_write_outside_transaction [OF tx_consumer_ok tx_kafka_needs map_engine_total
        tx_process_ok _ tx_carries i])
      (simp_all add: tx_consumer_def tx_process_def in_transaction_def)
  then show ?thesis by (auto simp: tx_process_def)
qed

text \<open>C30. A transaction whose commit fails is forgotten rather than aborted. When the interval is
  reached and the commit raises an error that is not a fencing one, settling returns normally having
  made no call but the failed commit: the committer was reset by its own \<^verbatim>\<open>finally\<close>, so the abort,
  the discard and replay of the touched stores and the seek back that \<^verbatim>\<open>_abort_and_repair\<close> is for
  are all skipped; the local folds of the failed transaction stay.\<close>

theorem failed_commit_not_repaired:
  assumes "cn_commits C = tx_ops K c tid" and "tx_open s"
    and "transaction_commit_interval_messages c \<le> tx_messages s"
    and "k_raises K (trace s) (SendOffsets (tx_offsets s)) = None"
    and "k_raises K (trace s @ [(SendOffsets (tx_offsets s), None)]) CommitTransaction = Some (KafkaException code why)"
    and "code \<notin> set FENCING_CODES"
  shows "settle C s = (Ok (), s\<lparr>
    trace := trace s @ [(SendOffsets (tx_offsets s), None), (CommitTransaction, Some (KafkaException code why))],
    markers := markers s @ [TRANSACTION_COMMIT_FAILED],
    tx_open := False, tx_messages := 0, tx_opened_at := 0, tx_touched := [], tx_offsets := []\<rparr>)"
  using assms
  by (simp add: settle_def tx_ops_def tx_maybe_commit_def tx_commit_def abort_and_repair_def tx_abort_def
      bindC_def tryC_def finallyC_def gets_def call_def fenced_or_raise_def raise_if_fenced_def is_fenced_def
      tx_reset_def modify_def raise_def ret_def)

theorem failed_commit_not_repaired_witness:
  "\<exists>t. settle tx_consumer (tx_process\<lparr>tx_open := True, tx_messages := 100,
      tx_touched := [0], tx_offsets := [((''order-lifecycle'', 0), 8)]\<rparr>) = (Ok (), t) \<and>
    (AbortTransaction, None) \<notin> set (trace t) \<and> markers t = [TRANSACTION_COMMIT_FAILED]"
proof -
  let ?s = "tx_process\<lparr>tx_open := True, tx_messages := 100, tx_touched := [0],
    tx_offsets := [((''order-lifecycle'', 0), 8)]\<rparr>"
  have "settle tx_consumer ?s = (Ok (), ?s\<lparr>
    trace := trace ?s @ [(SendOffsets (tx_offsets ?s), None), (CommitTransaction, Some (KafkaException 7 ''timed out''))],
    markers := markers ?s @ [TRANSACTION_COMMIT_FAILED],
    tx_open := False, tx_messages := 0, tx_opened_at := 0, tx_touched := [], tx_offsets := []\<rparr>)"
    by (rule failed_commit_not_repaired [of tx_consumer tx_kafka tx_settings "''tx''"])
      (simp_all add: tx_consumer_def tx_kafka_def FENCING_CODES_def tx_settings_def default_settings_def
        script_kafka_def)
  then show ?thesis by (simp add: tx_process_def)
qed

end
