(* ===== verification/Services.thy ===== *)
theory Services
  imports Exactly_Once
begin

text \<open>
  The three services (\<^verbatim>\<open>consumer/inventory.py\<close>, \<^verbatim>\<open>notification.py\<close>, \<^verbatim>\<open>analytics.py\<close>) and the entry
  point that runs one of them (\<^verbatim>\<open>consumer/main.py\<close>). A handler's log line is the marker
  \<open>HandlerRan\<close> with the service and the text after the service prefix; the counter of the analytics
  closure is the field \<open>counts\<close> of the process. \<open>main\<close> ends with the exit code of \<^verbatim>\<open>sys.exit\<close>
  as the outcome \<open>Exit\<close>, after the clean-up of its \<^verbatim>\<open>finally\<close> clause.
\<close>

section \<open>Handlers\<close>

record 's service_spec =
  sp_name :: string
  sp_handlers :: "event_type \<rightharpoonup> 's handler"

definition times_sign :: string where
  "times_sign = [char_of (195 :: nat), char_of (151 :: nat)]"

definition right_arrow :: string where
  "right_arrow = [char_of (226 :: nat), char_of (134 :: nat), char_of (146 :: nat)]"

definition reserve_stock :: "pydantic \<Rightarrow> ('x client_scheme) handler" where
  "reserve_stock P event =
     (case as_order_created P event of
        Inl e \<Rightarrow> raise e
      | Inr pl \<Rightarrow> forC (ocp_items pl) (\<lambda>item.
          mark (HandlerRan ''inventory'' (''reserving '' @ py_str (qty item) @ '' '' @ times_sign @ '' '' @
            sku item @ '' for '' @ ev_order_id event))))"

definition release_reservation :: "pydantic \<Rightarrow> ('x client_scheme) handler" where
  "release_reservation P event =
     (case as_shipped P event of
        Inl e \<Rightarrow> raise e
      | Inr pl \<Rightarrow> mark (HandlerRan ''inventory'' (''reservation for '' @ ev_order_id event @
          '' committed '' @ em_dash @ '' handed to '' @ carrier pl @ '' ('' @
          tracking_number pl @ '')'')))"

definition inventory_service :: "pydantic \<Rightarrow> ('x client_scheme) service_spec" where
  "inventory_service P =
     \<lparr>sp_name = ''inventory'',
      sp_handlers = [ORDER_CREATED \<mapsto> reserve_stock P, SHIPPED \<mapsto> release_reservation P]\<rparr>"

fun MESSAGES :: "event_type \<Rightarrow> string" where
  "MESSAGES ORDER_CREATED = ''Order confirmed '' @ em_dash @ '' payment received, we are preparing it''"
| "MESSAGES PACKED = ''Your order is packed and waiting for pickup''"
| "MESSAGES SHIPPED = ''On its way''"
| "MESSAGES DELIVERED = ''Delivered '' @ em_dash @ '' thanks for shopping with us''"

definition message_for :: "pydantic \<Rightarrow> lifecycle_event \<Rightarrow> exn + string" where
  "message_for P event =
     (let message = MESSAGES (ev_type event) in
      if ev_type event = SHIPPED then
        (case as_shipped P event of
           Inl e \<Rightarrow> Inl e
         | Inr shipped \<Rightarrow> Inr (message @ '' via '' @ carrier shipped @ '', tracking '' @ tracking_number shipped))
      else if ev_type event = ORDER_CREATED then
        (case as_order_created P event of
           Inl e \<Rightarrow> Inl e
         | Inr created \<Rightarrow> Inr (message @ '' (total '' @ py_str (ocp_total_amount created) @ '')''))
      else Inr message)"

definition notify :: "pydantic \<Rightarrow> ('x client_scheme) handler" where
  "notify P event =
     (case message_for P event of
        Inl e \<Rightarrow> raise e
      | Inr t \<Rightarrow> mark (HandlerRan ''notification''
          (right_arrow @ '' customer of '' @ ev_order_id event @ '': '' @ t)))"

definition notification_service :: "pydantic \<Rightarrow> ('x client_scheme) service_spec" where
  "notification_service P = \<lparr>sp_name = ''notification'', sp_handlers = (\<lambda>_. Some (notify P))\<rparr>"

text \<open>\<^verbatim>\<open>" ".join(...)\<close> over the event types with a non-zero count.\<close>

definition tally :: "(string \<Rightarrow> int) \<Rightarrow> string" where
  "tally n =
     (let parts = map (\<lambda>t. event_type_value t @ ''='' @ py_str (n (event_type_value t)))
            (filter (\<lambda>t. n (event_type_value t) \<noteq> 0) all_event_types)
      in concat (case parts of [] \<Rightarrow> [] | x # xs \<Rightarrow> x # map (\<lambda>p. '' '' @ p) xs))"

definition count_event :: "(('d, 'x) process_scheme) handler" where
  "count_event event =
     (let k = event_type_value (ev_type event) in
      thenC (modify (\<lambda>s. s\<lparr>counts := (counts s)(k := counts s k + 1)\<rparr>))
      (bindC (gets counts) (\<lambda>n.
       mark (HandlerRan ''analytics'' (''counted '' @ k @ '' for '' @ ev_order_id event @ '' '' @ em_dash @
         '' '' @ tally n)))))"

definition analytics_service :: "(('d, 'x) process_scheme) service_spec" where
  "analytics_service = \<lparr>sp_name = ''analytics'', sp_handlers = (\<lambda>_. Some count_event)\<rparr>"

section \<open>The entry point\<close>

definition SERVICE_REGISTRY :: "pydantic \<Rightarrow> (string \<times> ('d, 'x) process_scheme service_spec) list" where
  "SERVICE_REGISTRY P =
     [(''inventory'', inventory_service P), (''notification'', notification_service P),
      (''analytics'', analytics_service)]"

definition build_spec :: "pydantic \<Rightarrow> string \<Rightarrow> exn + ('d, 'x) process_scheme service_spec" where
  "build_spec P name =
     (case map_of (SERVICE_REGISTRY P) name of
        None \<Rightarrow> Inl (OtherError ''KeyError'' (''unknown SERVICE_NAME '' @ apostrophe @ name @
          apostrophe @ '' '' @ em_dash @ '' expected one of: analytics, inventory, notification''))
      | Some spec \<Rightarrow> Inr spec)"

text \<open>\<^verbatim>\<open>LocalStateStore.__init__\<close>; \<open>mkdir\<close> is what creating the state directory raised.\<close>

definition local_init ::
    "exn option \<Rightarrow> settings \<Rightarrow> string \<Rightarrow> (('d, 'x) local_state_scheme, unit) comp" where
  "local_init mkdir c gid =
     (case mkdir of
        Some e \<Rightarrow> raise (StateStoreUnavailable (''state backend '' @ apostrophe @ ''local'' @ apostrophe @
          '' cannot use '' @ state_dir c @ ''/'' @ gid @ '': '' @ exn_text e))
      | None \<Rightarrow> modify (\<lambda>s. s\<lparr>position := Map.empty, handles := {}\<rparr>))"

definition build_store ::
    "kafka \<Rightarrow> 'd engine \<Rightarrow> exn option \<Rightarrow> nat \<Rightarrow> int list \<Rightarrow> settings \<Rightarrow> string \<Rightarrow>
     (('d, 'x) local_state_scheme, ('d, 'x) local_state_scheme store_ops) comp" where
  "build_store K E mkdir fuel universe c gid =
     (if state_backend c = MEMORY
      then thenC (modify (\<lambda>s. s\<lparr>mem_folds := Map.empty, mem_handled := Map.empty\<rparr>))
             (ret (memory_ops universe))
      else thenC (local_init mkdir c gid) (ret (local_ops K E c gid fuel)))"

text \<open>\<^verbatim>\<open>ServiceConsumer.__init__\<close>: the configuration is checked before the committer is built.\<close>

definition service_consumer ::
    "kafka \<Rightarrow> string \<Rightarrow> pydantic \<Rightarrow> string \<Rightarrow> ('d, 'x) process_scheme service_spec \<Rightarrow> settings \<Rightarrow>
     ('d, 'x) process_scheme store_ops \<Rightarrow>
     (('d, 'x) process_scheme, ('d, 'x) process_scheme consumer) comp" where
  "service_consumer K host P fresh spec c store =
     (case build_consumer_config c (group_id_for c (sp_name spec))
        (''order-service-'' @ sp_name spec @ ''-'' @ instance_label host c) of
        Inl e \<Rightarrow> raise e
      | Inr config \<Rightarrow>
          bindC (build_commit_strategy K host c (sp_name spec)) (\<lambda>commits.
          ret \<lparr>cn_kafka = K, cn_settings = c, cn_name = sp_name spec, cn_handlers = sp_handlers spec,
               cn_store = store, cn_commits = commits, cn_pydantic = P, cn_fresh = fresh\<rparr>))"

text \<open>The exit code of an exception that ends the loop; other exceptions propagate.\<close>

definition exit_code :: "exn \<Rightarrow> int option" where
  "exit_code e = (case e of
     KafkaException _ _ \<Rightarrow> Some 1 | StateStoreUnavailable _ \<Rightarrow> Some 1 | ProducerFenced _ \<Rightarrow> Some 1
   | _ \<Rightarrow> None)"

definition main_service ::
    "kafka \<Rightarrow> 'd engine \<Rightarrow> exn option \<Rightarrow> nat \<Rightarrow> int list \<Rightarrow> string \<Rightarrow> pydantic \<Rightarrow> string \<Rightarrow>
     settings \<Rightarrow> input list \<Rightarrow> (('d, 'x) process_scheme, unit) comp" where
  "main_service K E mkdir fuel universe host P fresh raw inputs =
     (case load_settings raw of
        Inl e \<Rightarrow> hard_exit 2
      | Inr c \<Rightarrow>
     (case build_spec P (service_name c) of
        Inl e \<Rightarrow> hard_exit 2
      | Inr spec \<Rightarrow>
      bindC (tryC (build_store K E mkdir fuel universe c (group_id_for c (sp_name spec)))
               (\<lambda>e. case e of StateStoreUnavailable _ \<Rightarrow> hard_exit 2 | _ \<Rightarrow> raise e)) (\<lambda>store.
      bindC (tryC (service_consumer K host P fresh spec c store)
               (\<lambda>e. case e of
                  ConsumerConfigError _ \<Rightarrow> thenC (st_close store) (hard_exit 2)
                | ProducerFenced _ \<Rightarrow> thenC (st_close store) (hard_exit 2)
                | _ \<Rightarrow> raise e)) (\<lambda>C.
      bindC (finallyC
               (tryC (thenC (run C inputs) (ret None))
                  (\<lambda>e. case exit_code e of Some n \<Rightarrow> ret (Some n) | None \<Rightarrow> raise e))
               (thenC (st_close store) (thenC (producer_flush K) (ret ())))) (\<lambda>code.
      case code of None \<Rightarrow> ret () | Some n \<Rightarrow> hard_exit n)))))"

section \<open>What the handlers do\<close>

text \<open>A handler that only writes log lines, seen as one that may also count.\<close>

lemma marks_only:
  fixes s :: "('d, 'x) process_scheme"
  assumes "\<exists>l. h ev s = (Ok (), s\<lparr>markers := markers s @ l\<rparr>) \<and> list_all handler_line l"
  shows "\<exists>ms n. h ev s = (Ok (), s\<lparr>markers := markers s @ ms, counts := n\<rparr>) \<and> list_all handler_line ms"
proof -
  from assms obtain l where "h ev s = (Ok (), s\<lparr>markers := markers s @ l, counts := counts s\<rparr>) \<and> list_all handler_line l" by auto
  then show ?thesis by (intro exI)
qed

lemma mark_lines:
  "(\<And>x. handler_line (f x)) \<Longrightarrow>
   \<exists>l. forC xs (\<lambda>x. mark (f x)) s = (Ok (), s\<lparr>markers := markers s @ l\<rparr>) \<and> list_all handler_line l"
  "handler_line x \<Longrightarrow> \<exists>l. mark x s = (Ok (), s\<lparr>markers := markers s @ l\<rparr>) \<and> list_all handler_line l"
  by (rule exI [of _ "map f xs"], simp add: list_all_iff) (rule exI [of _ "[x]"], simp)

lemma reserve_stock_marks:
  assumes "valid_event P ev" and "ev_type ev = ORDER_CREATED"
  shows "\<exists>l. reserve_stock P ev s = (Ok (), s\<lparr>markers := markers s @ l\<rparr>) \<and> list_all handler_line l"
  by (rule valid_event_as_order_created [OF assms]) (simp add: reserve_stock_def mark_lines del: forC_mark)

lemma release_reservation_marks:
  assumes "valid_event P ev" and "ev_type ev = SHIPPED"
  shows "\<exists>l. release_reservation P ev s = (Ok (), s\<lparr>markers := markers s @ l\<rparr>) \<and> list_all handler_line l"
  by (rule valid_event_as_shipped [OF assms]) (simp add: release_reservation_def mark_lines del: mark_simp)

lemma notify_marks:
  assumes "valid_event P ev"
  shows "\<exists>l. notify P ev s = (Ok (), s\<lparr>markers := markers s @ l\<rparr>) \<and> list_all handler_line l"
proof -
  have "\<exists>t. message_for P ev = Inr t"
  proof (cases "ev_type ev")
    case ORDER_CREATED
    obtain p where "as_order_created P ev = Inr p"
      by (rule valid_event_as_order_created [OF assms ORDER_CREATED])
    with ORDER_CREATED show ?thesis by (simp add: message_for_def Let_def)
  next
    case SHIPPED
    obtain p where "as_shipped P ev = Inr p" by (rule valid_event_as_shipped [OF assms SHIPPED])
    with SHIPPED show ?thesis by (simp add: message_for_def Let_def)
  qed (simp_all add: message_for_def Let_def)
  then show ?thesis by (auto simp: notify_def mark_lines simp del: mark_simp)
qed

lemma count_event_run:
  "\<exists>l. count_event ev s = (Ok (), s\<lparr>markers := markers s @ l, counts := (counts s)
     (event_type_value (ev_type ev) := counts s (event_type_value (ev_type ev)) + 1)\<rparr>) \<and> list_all handler_line l"
  by (cases s) (simp add: count_event_def Let_def exI [of _ "[_]"])

section \<open>The consumers the entry point builds\<close>

text \<open>The consumer of a service over the local store, and that it is what \<open>service_consumer\<close> returns.\<close>

definition service_process ::
    "kafka \<Rightarrow> 'd engine \<Rightarrow> nat \<Rightarrow> string \<Rightarrow> pydantic \<Rightarrow> string \<Rightarrow> settings \<Rightarrow>
     ('d, 'x) process_scheme service_spec \<Rightarrow> ('d, 'x) process_scheme consumer" where
  "service_process K E fuel host P fresh c spec =
     \<lparr>cn_kafka = K, cn_settings = c, cn_name = sp_name spec, cn_handlers = sp_handlers spec,
      cn_store = local_ops K E c (group_id_for c (sp_name spec)) fuel,
      cn_commits = (if processing_guarantee c = EXACTLY_ONCE
        then tx_ops K c (transactional_id_for host c (group_id_for c (sp_name spec))) else direct_ops K),
      cn_pydantic = P, cn_fresh = fresh\<rparr>"

lemma service_consumer_builds:
  assumes "service_consumer K host P fresh spec c (local_ops K E c (group_id_for c (sp_name spec)) fuel) s = (Ok C, t)"
  shows "C = service_process K E fuel host P fresh c spec"
  using assms
  by (auto simp: service_consumer_def build_commit_strategy_def service_process_def raise_def ret_def Let_def
      elim!: bindC_OkE split: sum.splits if_splits)

lemma service_process_simps [simp]:
  "cn_kafka (service_process K E fuel host P fresh c spec) = K"
  "cn_settings (service_process K E fuel host P fresh c spec) = c"
  "cn_name (service_process K E fuel host P fresh c spec) = sp_name spec"
  "cn_handlers (service_process K E fuel host P fresh c spec) = sp_handlers spec"
  "cn_pydantic (service_process K E fuel host P fresh c spec) = P"
  "cn_store (service_process K E fuel host P fresh c spec) = local_ops K E c (group_id_for c (sp_name spec)) fuel"
  by (simp_all add: service_process_def)

text \<open>No handler makes a client call, whatever the event.\<close>

lemma keeps_trace_mark [keeps_rules]: "keeps trace_eq (mark m)"
  by (simp add: keeps_def trace_eq_def)

lemma keeps_trace_modify_counts: "(\<And>s. trace (f s) = trace s) \<Longrightarrow> keeps trace_eq (modify f)"
  by (simp add: keeps_def trace_eq_def modify_def)

lemma inventory_trace: "sp_handlers (inventory_service P) et = Some h \<Longrightarrow> keeps trace_eq (h ev)"
  by (auto simp: inventory_service_def reserve_stock_def release_reservation_def
      intro!: keeps_rules split: if_splits sum.splits)

lemma notification_trace: "sp_handlers (notification_service P) et = Some h \<Longrightarrow> keeps trace_eq (h ev)"
  by (auto simp: notification_service_def notify_def intro!: keeps_rules split: sum.splits)

lemma analytics_trace: "sp_handlers analytics_service et = Some h \<Longrightarrow> keeps trace_eq (h ev)"
  by (auto simp: analytics_service_def count_event_def Let_def
      intro!: keeps_rules keeps_trace_modify_counts)

lemma build_spec_cases:
  assumes "build_spec P name = Inr spec"
  obtains "spec = inventory_service P" | "spec = notification_service P" | "spec = analytics_service"
  using assms by (auto simp: build_spec_def SERVICE_REGISTRY_def split: if_splits)

text \<open>The registered handlers return on every event the event model accepts.\<close>

lemma registered_handler_run:
  fixes s :: "('d, 'x) process_scheme"
  assumes "build_spec P name = Inr (spec :: ('d, 'x) process_scheme service_spec)" and "valid_event P ev"
    and "sp_handlers spec (ev_type ev) = Some h"
  shows "\<exists>ms n. h ev s = (Ok (), s\<lparr>markers := markers s @ ms, counts := n\<rparr>) \<and> list_all handler_line ms"
proof -
  show ?thesis
  proof (rule build_spec_cases [OF assms(1)])
    assume "spec = inventory_service P"
    then consider "ev_type ev = ORDER_CREATED" "h = reserve_stock P" | "ev_type ev = SHIPPED" "h = release_reservation P"
      using assms(3) by (auto simp: inventory_service_def split: if_splits)
    then show ?thesis
      using reserve_stock_marks [OF assms(2), of s] release_reservation_marks [OF assms(2), of s]
      by cases (blast intro: marks_only)+
  next
    assume "spec = notification_service P"
    then have "h = notify P" using assms(3) by (simp add: notification_service_def)
    then show ?thesis using notify_marks [OF assms(2), of s] by (blast intro: marks_only)
  next
    assume "spec = analytics_service"
    then have "h = count_event" using assms(3) by (simp add: analytics_service_def)
    then show ?thesis using count_event_run [of ev s] by blast
  qed
qed

lemma registered_inert:
  assumes "build_spec P name = Inr spec" and "valid_event P ev"
  shows "inert (service_process K E fuel host P fresh c spec) ev"
  using registered_handler_run [OF assms] by (auto simp: inert_def split: option.splits)

section \<open>Properties\<close>

text \<open>C31. No handler of a registered service fails on an event that decodes: for every service name
  the registry knows and every event the event model accepts, the handler returns, having written
  log lines and, for analytics, its counter, and nothing else. So the failure route is taken only
  for undecodable messages and for the failure lever.\<close>

theorem registered_handlers_return:
  fixes s :: "('d, 'x) process_scheme"
  assumes "build_spec P name = Inr (spec :: ('d, 'x) process_scheme service_spec)" and "valid_event P ev"
    and "sp_handlers spec (ev_type ev) = Some h"
  shows "\<exists>ms n. h ev s = (Ok (), s\<lparr>markers := markers s @ ms, counts := n\<rparr>) \<and> list_all handler_line ms"
  by (rule registered_handler_run [OF assms])

theorem registered_handlers_return_witness:
  "\<exists>ms n. the (sp_handlers (notification_service strict_pydantic) PACKED) demo_event tx_process =
     (Ok (), tx_process\<lparr>markers := markers tx_process @ ms, counts := n\<rparr>) \<and> list_all handler_line ms"
proof -
  have spec: "build_spec strict_pydantic ''notification'' = Inr (notification_service strict_pydantic)"
    by (simp add: build_spec_def SERVICE_REGISTRY_def)
  have h: "sp_handlers (notification_service strict_pydantic) (ev_type demo_event) = Some (notify strict_pydantic)"
    by (simp add: notification_service_def)
  from registered_handlers_return [OF spec demo_event_valid h, of tx_process] show ?thesis
    by (simp add: notification_service_def)
qed



end
