(* ===== verification/Handling.thy ===== *)
theory Handling
  imports Services
begin

text \<open>
  What handling one message does to a service over the local store, on a broker that accepts every call
  and an engine that does not fail: the fold it leaves, the violations it logs, the commit it makes, and
  where the crash lever stops it.
\<close>

section \<open>Violations logged\<close>

fun is_violation :: "marker \<Rightarrow> bool" where
  "is_violation (VIOLATION _) = True"
| "is_violation _ = False"

abbreviation violations :: "'x client_scheme \<Rightarrow> marker list" where
  "violations s \<equiv> filter is_violation (markers s)"

lemma handler_lines_clean [simp]: "list_all handler_line ms \<Longrightarrow> filter is_violation ms = []"
proof (induction ms)
  case (Cons x xs)
  then show ?case by (cases x) simp_all
qed simp

lemma filter_replicate_failed [simp]: "filter is_violation (replicate n CHANGELOG_DELIVERY_FAILED) = []"
  by (induction n) simp_all

lemma filter_violations [simp]: "filter is_violation (map (\<lambda>v. VIOLATION (f v)) vs) = map (\<lambda>v. VIOLATION (f v)) vs"
  by (induction vs) simp_all

section \<open>The store on a broker that accepts everything\<close>

definition accepting :: "kafka \<Rightarrow> bool" where
  "accepting K \<longleftrightarrow> k_raises K = (\<lambda>_ _. None) \<and> k_remaining K = (\<lambda>_. 0)"

text \<open>What a series of callbacks and calls leaves alone.\<close>

definition calm :: "('d, 'x) local_state_scheme \<Rightarrow> ('d, 'x) local_state_scheme \<Rightarrow> bool" where
  "calm s t \<longleftrightarrow> (\<exists>n. markers t = markers s @ replicate n CHANGELOG_DELIVERY_FAILED) \<and> disk t = disk s"

lemma calmD: "calm s t \<Longrightarrow> violations t = violations s" "calm s t \<Longrightarrow> disk t = disk s"
  "calm s t \<Longrightarrow> set (markers s) \<subseteq> set (markers t)"
  by (auto simp: calm_def)

lemma calm_same:
  assumes "calm s t"
  shows "local_ok E c gid t = local_ok E c gid s" and "local_fold E c gid t = local_fold E c gid s"
  using calmD(2) [OF assms] by (simp_all add: local_ok_def held_contents_def local_fold_def stored_at_def fun_eq_iff)

lemma local_frame [simp]:
  "local_fold E c gid (s\<lparr>trace := h\<rparr>) = local_fold E c gid s" "local_ok E c gid (s\<lparr>trace := h\<rparr>) = local_ok E c gid s"
  "local_fold E c gid (s\<lparr>markers := ms\<rparr>) = local_fold E c gid s" "local_ok E c gid (s\<lparr>markers := ms\<rparr>) = local_ok E c gid s"
  by (simp_all add: local_ok_def held_contents_def local_fold_def stored_at_def fun_eq_iff)

lemma local_publish_run:
  assumes "accepting K" and "local_publish K c gid oid v s = (r, t)"
  shows "r = Ok () \<and> calm s t \<and> trace t = trace s @
    [(Produce ByStore (changelog_topic_for c gid) (Some oid) v [], None), (ProducerPoll, None)]"
proof -
  let ?s1 = "s\<lparr>trace := trace s @ [(Produce ByStore (changelog_topic_for c gid) (Some oid) v [], None)]\<rparr>"
  have pub: "local_publish K c gid oid v s = producer_poll K ?s1"
    using assms(1) by (simp add: accepting_def local_publish_def Let_def bindC_def tryC_def call_def)
  show ?thesis
    by (rule producer_poll_run [of K ?s1]) (use assms pub in \<open>auto simp: accepting_def calm_def\<close>)
qed

lemma local_flush_run:
  assumes "accepting K" and "local_flush K s = (r, t)"
  shows "r = Ok () \<and> calm s t \<and> trace t = trace s @ [(ProducerFlush, None)]"
  by (rule producer_flush_run [of K s])
    (use assms in \<open>auto simp: accepting_def local_flush_def bindC_def ret_def calm_def\<close>)

text \<open>The fold a save leaves: the guard keeps the one with the higher sequence number.\<close>

definition newer :: "order_fold option \<Rightarrow> order_fold \<Rightarrow> order_fold" where
  "newer cur f = (case cur of None \<Rightarrow> f | Some g \<Rightarrow> if f_last_sequence g < f_last_sequence f then f else g)"

abbreviation last_of :: "order_fold option \<Rightarrow> int" where
  "last_of cur \<equiv> (case cur of None \<Rightarrow> 0 | Some g \<Rightarrow> f_last_sequence g)"

lemma next_record_newer:
  "rec_fold (snd (next_record prev f eid)) = newer (map_option rec_fold prev) f"
  "so_applied (fst (next_record prev f eid)) \<longleftrightarrow> last_of (map_option rec_fold prev) < f_last_sequence f"
  by (auto simp: next_record_def newer_def Let_def split: option.splits)

lemma local_save_accepts:
  assumes K: "accepting K" and ok: "local_ok E c gid s" and tot: "engine_total E" and f: "f_order_id f = oid"
  obtains out t where "local_save K E c gid p oid f eid s = (Ok out, t)"
    and "so_applied out \<longleftrightarrow> last_of (local_fold E c gid s p oid) < f_last_sequence f"
    and "violations t = violations s" and "local_ok E c gid t"
    and "local_fold E c gid t = (\<lambda>p' oid'. if p' = p \<and> oid' = oid
      then Some (newer (local_fold E c gid s p oid) f) else local_fold E c gid s p' oid')"
    and "\<exists>v. trace t = trace s @ [(Produce ByStore (changelog_topic_for c gid) (Some oid) v [], None), (ProducerPoll, None)]"
proof -
  define prev where "prev = stored_at E c gid s p oid"
  let ?n = "next_record prev f eid"
  obtain d where d: "local_save K E c gid p oid f eid s =
      bindC (local_publish K c gid oid (Some (encode_record (snd ?n)))) (\<lambda>_. ret (fst ?n)) (on_partition p d s)"
    unfolding prev_def by (rule local_save_reaches_publish [OF ok tot, where K = K and f = f and eid = eid])
  obtain r t where t: "local_publish K c gid oid (Some (encode_record (snd ?n))) (on_partition p d s) = (r, t)"
    by (cases "local_publish K c gid oid (Some (encode_record (snd ?n))) (on_partition p d s)")
  note pb = local_publish_run [OF K t]
  have sv: "local_save K E c gid p oid f eid s = (Ok (fst ?n), t)"
    using pb t by (simp add: d bindC_def ret_def)
  from local_save_stored [OF ok f sv, folded prev_def] have "local_ok E c gid t"
    and st: "stored_at E c gid t = (\<lambda>p' oid'. if p' = p \<and> oid' = oid then Some (snd ?n) else stored_at E c gid s p' oid')"
    by auto
  moreover have "map_option rec_fold prev = local_fold E c gid s p oid" by (simp add: prev_def local_fold_def)
  ultimately show ?thesis
    using sv pb calmD(1) [of "on_partition p d s" t]
    by (intro that [of "fst ?n" t]) (auto simp: local_fold_def next_record_newer fun_eq_iff)
qed

section \<open>The consumers\<close>

text \<open>A service over the local store, under at-least-once, with no failure lever and with handlers that
  only log and count.\<close>

definition store_consumer ::
    "('d, 'x) process_scheme consumer \<Rightarrow> kafka \<Rightarrow> 'd engine \<Rightarrow> nat \<Rightarrow> bool" where
  "store_consumer C K E fuel \<longleftrightarrow>
     cn_kafka C = K \<and> accepting K \<and> engine_total E \<and> \<not> exactly_once (cn_settings C) \<and>
     cn_store C = local_ops K E (cn_settings C) (cn_group_id C) fuel \<and> cn_commits C = direct_ops K \<and>
     pydantic_ok (cn_pydantic C) \<and> (\<forall>ev n. maybe_fail (cn_settings C) ev n = None) \<and>
     (\<forall>ev. valid_event (cn_pydantic C) ev \<longrightarrow> inert C ev)"

lemma store_consumerD:
  assumes "store_consumer C K E fuel"
  shows "cn_kafka C = K" "accepting K" "engine_total E" "\<not> exactly_once (cn_settings C)"
    "cn_store C = local_ops K E (cn_settings C) (cn_group_id C) fuel" "cn_commits C = direct_ops K"
    "pydantic_ok (cn_pydantic C)" "maybe_fail (cn_settings C) ev n = None"
    "valid_event (cn_pydantic C) ev \<Longrightarrow> inert C ev"
  using assms by (auto simp: store_consumer_def)

text \<open>The settings a service runs under by default, as far as the loop reads them.\<close>

definition plain_settings :: "settings \<Rightarrow> bool" where
  "plain_settings c \<longleftrightarrow> processing_guarantee c = AT_LEAST_ONCE \<and> (\<forall>ev n. maybe_fail c ev n = None)"

lemma service_store_consumer:
  assumes "build_spec P name = Inr spec" and "plain_settings c" and "pydantic_ok P" and "accepting K" and "engine_total E"
  shows "store_consumer (service_process K E fuel host P fresh c spec) K E fuel"
proof -
  have "cn_commits (service_process K E fuel host P fresh c spec) = direct_ops K"
    using assms(2) by (simp add: plain_settings_def service_process_def)
  then show ?thesis
    using assms registered_inert [OF assms(1)]
    by (simp add: store_consumer_def plain_settings_def exactly_once_def)
qed

abbreviation fold_of ::
    "('d, 'x) process_scheme consumer \<Rightarrow> 'd engine \<Rightarrow> ('d, 'x) process_scheme \<Rightarrow> int \<Rightarrow> string \<Rightarrow> order_fold option" where
  "fold_of C E s \<equiv> local_fold E (cn_settings C) (cn_group_id C) s"

abbreviation sound :: "('d, 'x) process_scheme consumer \<Rightarrow> 'd engine \<Rightarrow> ('d, 'x) process_scheme \<Rightarrow> bool" where
  "sound C E s \<equiv> local_ok E (cn_settings C) (cn_group_id C) s"

lemma local_fold_order_id:
  "local_fold E c gid s p oid = Some g \<Longrightarrow> f_order_id g = oid"
  by (auto simp: local_fold_def stored_at_def dest: decode_record_order_id split: option.splits sum.splits)

lemma commit_accepting:
  assumes "store_consumer C K E fuel"
  shows "commit_message C m s =
    (Ok (), s\<lparr>trace := trace s @ [(CommitOffset (m_topic m) (m_partition m) (m_offset m + 1), None)]\<rparr>)"
  using store_consumerD(2,6) [OF assms]
  by (simp add: commit_message_def direct_ops_def direct_note_def tryC_def call_def accepting_def)

section \<open>Saving and committing\<close>

text \<open>After the fold was saved and flushed: the fold is the newer one, and a fold that was not saved is
  reported as a duplicate.\<close>

definition folded ::
    "('d, 'x) process_scheme consumer \<Rightarrow> 'd engine \<Rightarrow> lifecycle_event \<Rightarrow> order_fold \<Rightarrow> int \<Rightarrow>
     ('d, 'x) process_scheme \<Rightarrow> ('d, 'x) process_scheme \<Rightarrow> bool" where
  "folded C E ev f p s t \<longleftrightarrow> sound C E t \<and> violations t = violations s \<and>
     fold_of C E t = (\<lambda>p' oid'. if p' = p \<and> oid' = ev_order_id ev
        then Some (newer (fold_of C E s p (ev_order_id ev)) f) else fold_of C E s p' oid') \<and>
     (f_last_sequence f \<le> last_of (fold_of C E s p (ev_order_id ev)) \<longrightarrow>
        (\<exists>n. DUPLICATE_ABSORBED (ev_order_id ev) (ev_sequence ev) n \<in> set (markers t)))"

lemma save_fold_accepts:
  assumes C: "store_consumer C K E fuel" and ok: "sound C E s" and f: "f_order_id f = ev_order_id ev"
  obtains t v where "save_fold C ev f p s = (Ok (), t)" and "folded C E ev f p s t"
    and "trace t = trace s @ [(Produce ByStore (changelog_topic_for (cn_settings C) (cn_group_id C))
      (Some (ev_order_id ev)) v [], None), (ProducerPoll, None)]"
proof -
  note D = store_consumerD [OF C]
  obtain out t1 where t1: "local_save K E (cn_settings C) (cn_group_id C) p (ev_order_id ev) f (event_id ev) s = (Ok out, t1)"
    and app: "so_applied out \<longleftrightarrow> last_of (fold_of C E s p (ev_order_id ev)) < f_last_sequence f"
    and vi: "violations t1 = violations s" and ok1: "sound C E t1"
    and fo: "fold_of C E t1 = (\<lambda>p' oid'. if p' = p \<and> oid' = ev_order_id ev
      then Some (newer (fold_of C E s p (ev_order_id ev)) f) else fold_of C E s p' oid')"
    and tr: "\<exists>v. trace t1 = trace s @ [(Produce ByStore (changelog_topic_for (cn_settings C) (cn_group_id C))
      (Some (ev_order_id ev)) v [], None), (ProducerPoll, None)]"
    by (rule local_save_accepts [OF D(2) ok D(3) f])
  obtain v where v: "trace t1 = trace s @ [(Produce ByStore (changelog_topic_for (cn_settings C) (cn_group_id C))
      (Some (ev_order_id ev)) v [], None), (ProducerPoll, None)]" using tr by blast
  define t where "t = (if so_applied out then t1 else t1\<lparr>markers := markers t1 @
    [DUPLICATE_ABSORBED (ev_order_id ev) (ev_sequence ev) (so_handled_count out)]\<rparr>)"
  have "save_fold C ev f p s = (Ok (), t)"
    using t1 D(5) by (simp add: save_fold_def local_ops_def bindC_def ret_def t_def)
  moreover have "folded C E ev f p s t"
    using app vi ok1 fo
    by (auto simp: folded_def t_def)
  ultimately show ?thesis using v by (intro that [of t v]) (simp_all add: t_def)
qed

lemma folded_calm:
  assumes "folded C E ev f p s t" and "calm t u"
  shows "folded C E ev f p s u"
  using assms calmD [OF assms(2)] calm_same [OF assms(2)] by (auto simp: folded_def)

lemma folded_trace:
  assumes "folded C E ev f p s t"
  shows "folded C E ev f p s (t\<lparr>trace := h\<rparr>)"
  using assms by (simp add: folded_def)

text \<open>State first: the fold is durable, then the crash lever, then the commit.\<close>

lemma persist_state_first:
  assumes C: "store_consumer C K E fuel" and "state_write_order (cn_settings C) = STATE_FIRST"
    and ok: "sound C E s" and f: "f_order_id f = ev_order_id ev"
  obtains t v where "folded C E ev f p s t"
    and "trace t = trace s @ [(Produce ByStore (changelog_topic_for (cn_settings C) (cn_group_id C))
      (Some (ev_order_id ev)) v [], None), (ProducerPoll, None), (ProducerFlush, None)]"
    and "persist_and_commit C m ev f p s =
      (if state_crash_after (cn_settings C) = STATE_WRITE
       then (Exit 1, t\<lparr>markers := markers t @ [CRASH_LEVER (ev_order_id ev) (ev_sequence ev)]\<rparr>)
       else (Ok (), t\<lparr>trace := trace t @ [(CommitOffset (m_topic m) (m_partition m) (m_offset m + 1), None)]\<rparr>))"
proof -
  note D = store_consumerD [OF C]
  obtain t1 v where t1: "save_fold C ev f p s = (Ok (), t1)" "folded C E ev f p s t1"
    and tr: "trace t1 = trace s @ [(Produce ByStore (changelog_topic_for (cn_settings C) (cn_group_id C))
      (Some (ev_order_id ev)) v [], None), (ProducerPoll, None)]" by (rule save_fold_accepts [OF C ok f])
  obtain r t where t: "local_flush K t1 = (r, t)" by (cases "local_flush K t1")
  note fl = local_flush_run [OF D(2) t]
  show ?thesis
  proof (rule that)
    show "folded C E ev f p s t" by (rule folded_calm [OF t1(2)]) (use fl in simp)
    show "trace t = trace s @ [(Produce ByStore (changelog_topic_for (cn_settings C) (cn_group_id C))
      (Some (ev_order_id ev)) v [], None), (ProducerPoll, None), (ProducerFlush, None)]" using fl tr by simp
    show "persist_and_commit C m ev f p s =
      (if state_crash_after (cn_settings C) = STATE_WRITE
       then (Exit 1, t\<lparr>markers := markers t @ [CRASH_LEVER (ev_order_id ev) (ev_sequence ev)]\<rparr>)
       else (Ok (), t\<lparr>trace := trace t @ [(CommitOffset (m_topic m) (m_partition m) (m_offset m + 1), None)]\<rparr>))"
      using t1(1) t fl D(4,5) assms(2)
      by (simp add: persist_and_commit_def local_ops_def bindC_def crash_if_configured_def ret_def
          commit_accepting [OF C] hard_exit_def)
  qed
qed

section \<open>A whole message\<close>

text \<open>Up to the write: the process has loaded, logged what there is to report and run its handler.\<close>

lemma handle_to_write:
  fixes s :: "('d, 'x) process_scheme"
  assumes C: "store_consumer C K E fuel" and ok: "sound C E s" and m: "carries C m ev"
  defines "cur \<equiv> fold_of C E s (m_partition m) (ev_order_id ev)"
  obtains u where "handle_message C m s = persist_and_commit C m ev (fst (apply_event cur ev)) (m_partition m) u"
    and "sound C E u" and "fold_of C E u = fold_of C E s" and "trace u = trace s"
    and "violations u = violations s @ map (\<lambda>v. VIOLATION (as_log_fields v)) (reported cur ev)"
    and "f_order_id (fst (apply_event cur ev)) = ev_order_id ev"
proof -
  note D = store_consumerD [OF C]
  have v: "valid_event (cn_pydantic C) ev" using m by (simp add: carries_def)
  obtain d ms n where h: "handle_message C m s =
      persist_and_commit C m ev (fst (apply_event cur ev)) (m_partition m)
        ((on_partition (m_partition m) d s)\<lparr>markers := markers s @
           map (\<lambda>v. VIOLATION (as_log_fields v)) (reported cur ev) @ ms, counts := n\<rparr>)"
    and d: "rd_contents E d = rd_contents E (disk s)" and ms: "list_all handler_line ms"
    unfolding cur_def by (rule handle_message_local [OF D(7) m D(9) [OF v] D(8) D(5) ok D(3)])
  define u where "u = (on_partition (m_partition m) d s)\<lparr>markers := markers s @
      map (\<lambda>v. VIOLATION (as_log_fields v)) (reported cur ev) @ ms, counts := n\<rparr>"
  have "contents_eq E s u" using d by (simp add: contents_eq_def u_def)
  then have same: "sound C E u" "fold_of C E u = fold_of C E s"
    using local_ok_contents_eq [OF ok] by (simp_all add: local_fold_def stored_at_contents_eq fun_eq_iff)
  have "f_order_id (fst (apply_event cur ev)) = ev_order_id ev"
    using local_fold_order_id by (auto simp: apply_event_fields cur_def split: option.splits)
  with h same ms show ?thesis by (intro that [of u]) (simp_all add: u_def)
qed

section \<open>A broker and a process to start from\<close>

lemma script_accepting: "accepting (script_kafka [] 0)"
  by (simp add: accepting_def script_kafka_def)

lemma tx_process_empty: "local_fold map_engine c gid tx_process p oid = None"
  by (simp add: local_fold_def stored_at_def held_contents_def map_engine_def dir_of_def tx_process_def)

end
