(* ===== verification/Crash_Recovery.thy ===== *)
theory Crash_Recovery
  imports Handling
begin

text \<open>
  What a crash between the fold write and the offset costs, for both settings of
  \<^verbatim>\<open>STATE_WRITE_ORDER\<close>, and what a redelivered message does on either backend: the table in the
  docstring of \<^verbatim>\<open>_persist_and_commit\<close> and the control experiment \<^verbatim>\<open>MemoryStateStore\<close> keeps.
\<close>

section \<open>The fold after a message\<close>

lemma last_of_newer: "f_last_sequence f \<le> f_last_sequence (newer cur f)"
  by (auto simp: newer_def split: option.splits)

lemma newer_absorbs: "f_last_sequence f \<le> f_last_sequence g \<Longrightarrow> newer (Some g) f = g"
  by (simp add: newer_def)

text \<open>A message on a service that writes its state first: the fold it leaves, and that the commit is the
  last thing, unless the lever stops the process right before it.\<close>

lemma handle_state_first:
  fixes s :: "('d, 'x) process_scheme"
  assumes C: "store_consumer C K E fuel" "state_write_order (cn_settings C) = STATE_FIRST"
    and ok: "sound C E s" and m: "carries C m ev"
  defines "cur \<equiv> fold_of C E s (m_partition m) (ev_order_id ev)"
  obtains t l where "handle_message C m s =
      (if state_crash_after (cn_settings C) = STATE_WRITE
       then (Exit 1, t\<lparr>markers := markers t @ [CRASH_LEVER (ev_order_id ev) (ev_sequence ev)]\<rparr>)
       else (Ok (), t\<lparr>trace := trace t @ [(CommitOffset (m_topic m) (m_partition m) (m_offset m + 1), None)]\<rparr>))"
    and "trace t = trace s @ l" and "no_commit l" and "sound C E t"
    and "violations t = violations s @ map (\<lambda>v. VIOLATION (as_log_fields v)) (reported cur ev)"
    and "fold_of C E t = (\<lambda>p oid. if p = m_partition m \<and> oid = ev_order_id ev
      then Some (newer cur (fst (apply_event cur ev))) else fold_of C E s p oid)"
    and "ev_sequence ev \<le> last_of cur \<longrightarrow> (\<exists>n. DUPLICATE_ABSORBED (ev_order_id ev) (ev_sequence ev) n \<in> set (markers t))"
proof -
  let ?f = "fst (apply_event cur ev)"
  obtain u where h: "handle_message C m s = persist_and_commit C m ev ?f (m_partition m) u"
    and u: "sound C E u" "fold_of C E u = fold_of C E s" "trace u = trace s"
      "violations u = violations s @ map (\<lambda>v. VIOLATION (as_log_fields v)) (reported cur ev)"
    and f: "f_order_id ?f = ev_order_id ev"
    unfolding cur_def by (rule handle_to_write [OF C(1) ok m])
  obtain t v where t: "folded C E ev ?f (m_partition m) u t"
    and tr: "trace t = trace u @ [(Produce ByStore (changelog_topic_for (cn_settings C) (cn_group_id C))
      (Some (ev_order_id ev)) v [], None), (ProducerPoll, None), (ProducerFlush, None)]"
    and p: "persist_and_commit C m ev ?f (m_partition m) u =
      (if state_crash_after (cn_settings C) = STATE_WRITE
       then (Exit 1, t\<lparr>markers := markers t @ [CRASH_LEVER (ev_order_id ev) (ev_sequence ev)]\<rparr>)
       else (Ok (), t\<lparr>trace := trace t @ [(CommitOffset (m_topic m) (m_partition m) (m_offset m + 1), None)]\<rparr>))"
    by (rule persist_state_first [OF C u(1) f, where m = m])
  let ?l = "[(Produce ByStore (changelog_topic_for (cn_settings C) (cn_group_id C)) (Some (ev_order_id ev)) v [], None),
    (ProducerPoll, None), (ProducerFlush, None)]"
  show ?thesis
  proof (rule that [of t ?l])
    show "fold_of C E t = (\<lambda>p oid. if p = m_partition m \<and> oid = ev_order_id ev
      then Some (newer cur (fst (apply_event cur ev))) else fold_of C E s p oid)"
      using t unfolding folded_def u(2) cur_def by simp
    show "ev_sequence ev \<le> last_of cur \<longrightarrow> (\<exists>n. DUPLICATE_ABSORBED (ev_order_id ev) (ev_sequence ev) n \<in> set (markers t))"
      using t unfolding folded_def u(2) cur_def by (simp add: apply_event_fields)
  qed (use h p tr u t in \<open>simp_all add: folded_def\<close>)
qed

text \<open>A message whose event the store already knows.\<close>

lemma handle_absorbed:
  fixes s :: "('d, 'x) process_scheme"
  assumes C: "store_consumer C K E fuel" "state_write_order (cn_settings C) = STATE_FIRST"
      "state_crash_after (cn_settings C) \<noteq> STATE_WRITE"
    and ok: "sound C E s" and m: "carries C m ev"
    and g: "fold_of C E s (m_partition m) (ev_order_id ev) = Some g" "ev_sequence ev \<le> f_last_sequence g"
  shows "\<exists>t n. handle_message C m s = (Ok (), t) \<and> fold_of C E t = fold_of C E s \<and>
    violations t = violations s \<and> DUPLICATE_ABSORBED (ev_order_id ev) (ev_sequence ev) n \<in> set (markers t) \<and>
    last (trace t) = (CommitOffset (m_topic m) (m_partition m) (m_offset m + 1), None)"
proof -
  define cur where "cur = fold_of C E s (m_partition m) (ev_order_id ev)"
  obtain t l where h: "handle_message C m s =
      (if state_crash_after (cn_settings C) = STATE_WRITE
       then (Exit 1, t\<lparr>markers := markers t @ [CRASH_LEVER (ev_order_id ev) (ev_sequence ev)]\<rparr>)
       else (Ok (), t\<lparr>trace := trace t @ [(CommitOffset (m_topic m) (m_partition m) (m_offset m + 1), None)]\<rparr>))"
    and v: "violations t = violations s @ map (\<lambda>v. VIOLATION (as_log_fields v)) (reported cur ev)"
    and fo: "fold_of C E t = (\<lambda>p oid. if p = m_partition m \<and> oid = ev_order_id ev
      then Some (newer cur (fst (apply_event cur ev))) else fold_of C E s p oid)"
    and d: "ev_sequence ev \<le> last_of cur \<longrightarrow> (\<exists>n. DUPLICATE_ABSORBED (ev_order_id ev) (ev_sequence ev) n \<in> set (markers t))"
    unfolding cur_def by (rule handle_state_first [OF C(1,2) ok m])
  have cur: "cur = Some g" using g(1) by (simp add: cur_def)
  have "newer cur (fst (apply_event cur ev)) = g"
    using g(2) by (simp add: cur newer_absorbs apply_event_fields)
  then have "fold_of C E t = fold_of C E s" using fo g(1) by (auto simp: fun_eq_iff)
  moreover obtain n where "DUPLICATE_ABSORBED (ev_order_id ev) (ev_sequence ev) n \<in> set (markers t)"
    using d g(2) by (auto simp: cur)
  ultimately show ?thesis
    using h C(3) v g(2)
    by (intro exI [of _ "t\<lparr>trace := trace t @ [(CommitOffset (m_topic m) (m_partition m) (m_offset m + 1), None)]\<rparr>"]
        exI [of _ n]) (simp add: reported_def cur)
qed

text \<open>Offset first: the commit, the lever, and only then the fold.\<close>

lemma handle_offset_first_crash:
  fixes s :: "('d, 'x) process_scheme"
  assumes C: "store_consumer C K E fuel" and o: "state_write_order (cn_settings C) = OFFSET_FIRST"
    and cr: "state_crash_after (cn_settings C) = OFFSET_COMMIT" and ok: "sound C E s" and m: "carries C m ev"
  shows "\<exists>t. handle_message C m s = (Exit 1, t) \<and> fold_of C E t = fold_of C E s \<and>
    trace t = trace s @ [(CommitOffset (m_topic m) (m_partition m) (m_offset m + 1), None)]"
proof -
  define cur where "cur = fold_of C E s (m_partition m) (ev_order_id ev)"
  obtain u where h: "handle_message C m s = persist_and_commit C m ev (fst (apply_event cur ev)) (m_partition m) u"
    and u: "fold_of C E u = fold_of C E s" "trace u = trace s"
    unfolding cur_def by (rule handle_to_write [OF C ok m])
  let ?t = "u\<lparr>trace := trace s @ [(CommitOffset (m_topic m) (m_partition m) (m_offset m + 1), None)],
    markers := markers u @ [CRASH_LEVER (ev_order_id ev) (ev_sequence ev)]\<rparr>"
  have "persist_and_commit C m ev (fst (apply_event cur ev)) (m_partition m) u = (Exit 1, ?t)"
    using store_consumerD(4) [OF C] o cr u(2)
    by (simp add: persist_and_commit_def commit_accepting [OF C] bindC_def crash_if_configured_def hard_exit_def)
  with h u show ?thesis by (intro exI [of _ ?t]) simp
qed

text \<open>An event further on than the next one is reported as a gap.\<close>

lemma later_event_gap:
  assumes "last_of cur + 1 < ev_sequence ev"
  shows "\<exists>v \<in> set (reported cur ev). v_type v = SEQUENCE_GAP"
  using assms
  by (cases cur) (simp_all add: reported_def apply_event_def new_fold_def Let_def)

section \<open>The memory backend\<close>

definition memory_consumer :: "('d, 'x) process_scheme consumer \<Rightarrow> kafka \<Rightarrow> int list \<Rightarrow> bool" where
  "memory_consumer C K universe \<longleftrightarrow>
     cn_kafka C = K \<and> accepting K \<and> \<not> exactly_once (cn_settings C) \<and>
     state_write_order (cn_settings C) = STATE_FIRST \<and> state_crash_after (cn_settings C) \<noteq> STATE_WRITE \<and>
     cn_store C = memory_ops universe \<and> cn_commits C = direct_ops K \<and>
     pydantic_ok (cn_pydantic C) \<and> (\<forall>ev n. maybe_fail (cn_settings C) ev n = None) \<and>
     (\<forall>ev. valid_event (cn_pydantic C) ev \<longrightarrow> inert C ev)"

lemma handle_memory:
  fixes s :: "('d, 'x) process_scheme"
  assumes C: "memory_consumer C K universe" and m: "carries C m ev"
  defines "cur \<equiv> mem_partition s (m_partition m) (ev_order_id ev)"
  shows "\<exists>t. handle_message C m s = (Ok (), t) \<and>
    violations t = violations s @ map (\<lambda>v. VIOLATION (as_log_fields v)) (reported cur ev) \<and>
    mem_partition t (m_partition m) (ev_order_id ev) = Some (fst (apply_event cur ev))"
proof -
  have c: "pydantic_ok (cn_pydantic C)" "inert C ev" "maybe_fail (cn_settings C) ev (attempt_of (decode_headers m)) = None"
    using C m by (simp_all add: memory_consumer_def carries_def)
  have ld: "st_load (cn_store C) (m_partition m) (ev_order_id ev) s = (Ok cur, s)"
    using C by (simp add: memory_consumer_def memory_ops_def mem_load_def gets_def cur_def)
  define s2 where "s2 = s\<lparr>markers := markers s @ map (\<lambda>v. VIOLATION (as_log_fields v)) (reported cur ev)\<rparr>"
  obtain ms n where h: "case cn_handlers C (ev_type ev) of
      None \<Rightarrow> s2\<lparr>markers := markers s2 @ ms, counts := n\<rparr> = s2
    | Some h \<Rightarrow> h ev s2 = (Ok (), s2\<lparr>markers := markers s2 @ ms, counts := n\<rparr>)"
    and hl: "list_all handler_line ms" by (rule inert_run [OF c(2)])
  define s3 where "s3 = s2\<lparr>markers := markers s2 @ ms, counts := n\<rparr>"
  have run: "handle_message C m s = persist_and_commit C m ev (fst (apply_event cur ev)) (m_partition m) s3"
    by (rule handle_message_fine [OF c(1) m ld c(3) s2_def h [folded s3_def]])
  have ms3: "mem_partition s3 = mem_partition s" by (simp add: s3_def s2_def mem_partition_def fun_eq_iff)
  show ?thesis
    unfolding run using C hl
    by (simp add: memory_consumer_def persist_and_commit_def save_fold_def memory_ops_def mem_save_def mem_flush_def
        bindC_def ret_def crash_if_configured_def commit_message_def direct_ops_def direct_note_def tryC_def call_def
        accepting_def Let_def mem_partition_def s3_def s2_def)
qed

section \<open>Services with levers\<close>

definition lever_settings :: "state_write_order_mode \<Rightarrow> state_crash_point \<Rightarrow> settings" where
  "lever_settings w p = default_settings\<lparr>state_write_order := w, state_crash_after := p\<rparr>"

definition lever_consumer :: "state_write_order_mode \<Rightarrow> state_crash_point \<Rightarrow> map_disk process consumer" where
  "lever_consumer w p = service_process (script_kafka [] 0) map_engine 0 ''host'' strict_pydantic ''fresh''
     (lever_settings w p) (inventory_service strict_pydantic)"

definition amnesiac_consumer :: "map_disk process consumer" where
  "amnesiac_consumer = (lever_consumer STATE_FIRST NO_CRASH)\<lparr>cn_store := memory_ops [0]\<rparr>"

lemma lever_settings_simps [simp]:
  "state_write_order (lever_settings w p) = w" "state_crash_after (lever_settings w p) = p"
  "order_snapshot_topic (lever_settings w p) = ''order-snapshot''" "plain_settings (lever_settings w p)"
  "local_fold E (lever_settings w p) gid = local_fold E default_settings gid"
  "local_ok E (lever_settings w p) gid = local_ok E default_settings gid"
  by (simp_all add: lever_settings_def default_settings_def plain_settings_def maybe_fail_def local_fold_def local_ok_def
      stored_at_def held_contents_def path_for_def fun_eq_iff)

lemma lever_consumer_simps [simp]:
  "cn_settings (lever_consumer w p) = lever_settings w p" "cn_name (lever_consumer w p) = ''inventory''"
  "cn_pydantic (lever_consumer w p) = strict_pydantic"
  "group_id_for (lever_settings w p) n = group_id_for default_settings n"
  by (simp_all add: lever_consumer_def inventory_service_def lever_settings_def group_id_for_def)

lemma lever_store_consumer: "store_consumer (lever_consumer w p) (script_kafka [] 0) map_engine 0"
proof -
  have "build_spec strict_pydantic ''inventory'' = Inr (inventory_service strict_pydantic :: map_disk process service_spec)"
    by (simp add: build_spec_def SERVICE_REGISTRY_def)
  from service_store_consumer [OF this _ strict_pydantic_ok script_accepting map_engine_total] show ?thesis
    by (simp add: lever_consumer_def)
qed

lemma lever_carries: "carries (lever_consumer w p) demo_message demo_event"
proof -
  have "is_ascii ''ord-1''" by (simp add: is_ascii_def)
  then show ?thesis by (simp add: carries_def for_us_def decode_headers_def utf8_decode_ascii)
qed

lemma amnesiac_memory: "memory_consumer amnesiac_consumer (script_kafka [] 0) [0]"
proof -
  note D = store_consumerD [OF lever_store_consumer [of STATE_FIRST NO_CRASH]]
  have "inert amnesiac_consumer ev" if "valid_event strict_pydantic ev" for ev
    using D(9) [of ev] that by (simp add: inert_def amnesiac_consumer_def)
  then show ?thesis
    using D by (simp add: memory_consumer_def amnesiac_consumer_def)
qed

section \<open>Properties\<close>

text \<open>C9. Consuming a message twice is consuming it once. A service that writes its state first leaves,
  after any lifecycle message and its redelivery, exactly the folds it left after the first delivery:
  the guard absorbs the second write, the marker says so, no violation is reported, and the offset is
  committed again.\<close>

theorem redelivery_absorbed:
  fixes s :: "('d, 'x) process_scheme"
  assumes "store_consumer C K E fuel" and "state_write_order (cn_settings C) = STATE_FIRST"
    and "state_crash_after (cn_settings C) \<noteq> STATE_WRITE" and "sound C E s" and "carries C m ev"
  shows "\<exists>t v n. handle_message C m s = (Ok (), t) \<and> handle_message C m t = (Ok (), v) \<and>
    fold_of C E v = fold_of C E t \<and> filter is_violation (markers v) = filter is_violation (markers t) \<and>
    DUPLICATE_ABSORBED (ev_order_id ev) (ev_sequence ev) n \<in> set (markers v) \<and>
    last (trace v) = (CommitOffset (m_topic m) (m_partition m) (m_offset m + 1), None)"
proof -
  define cur where "cur = fold_of C E s (m_partition m) (ev_order_id ev)"
  let ?g = "newer cur (fst (apply_event cur ev))"
  obtain t l where h: "handle_message C m s =
      (if state_crash_after (cn_settings C) = STATE_WRITE
       then (Exit 1, t\<lparr>markers := markers t @ [CRASH_LEVER (ev_order_id ev) (ev_sequence ev)]\<rparr>)
       else (Ok (), t\<lparr>trace := trace t @ [(CommitOffset (m_topic m) (m_partition m) (m_offset m + 1), None)]\<rparr>))"
    and ok: "sound C E t"
    and fo: "fold_of C E t = (\<lambda>p oid. if p = m_partition m \<and> oid = ev_order_id ev
      then Some ?g else fold_of C E s p oid)"
    unfolding cur_def by (rule handle_state_first [OF assms(1,2,4,5)])
  let ?t = "t\<lparr>trace := trace t @ [(CommitOffset (m_topic m) (m_partition m) (m_offset m + 1), None)]\<rparr>"
  have g: "fold_of C E ?t (m_partition m) (ev_order_id ev) = Some ?g" by (simp add: fo)
  have le: "ev_sequence ev \<le> f_last_sequence ?g"
    using last_of_newer [of "fst (apply_event cur ev)" cur] by (simp add: apply_event_fields)
  from handle_absorbed [OF assms(1-3) _ assms(5) g le] ok h assms(3) show ?thesis by auto
qed

theorem redelivery_absorbed_witness:
  "\<exists>t v n. handle_message (lever_consumer STATE_FIRST NO_CRASH) demo_message tx_process = (Ok (), t) \<and>
     handle_message (lever_consumer STATE_FIRST NO_CRASH) demo_message t = (Ok (), v) \<and>
     DUPLICATE_ABSORBED ''ord-1'' (ev_sequence demo_event) n \<in> set (markers v)"
proof -
  have oid: "ev_order_id demo_event = ''ord-1''" by (simp add: demo_event_def)
  have "sound (lever_consumer STATE_FIRST NO_CRASH) map_engine tx_process" by (simp add: tx_process_ok)
  from redelivery_absorbed [OF lever_store_consumer _ _ this lever_carries] show ?thesis by (auto simp: oid)
qed



text \<open>C37. Offset first loses the event for good. The same crash with \<^verbatim>\<open>STATE_WRITE_ORDER=offset_first\<close>
  has committed past the message with the folds as they were, so nobody gets it again; and the next
  event of the order, to whoever takes over, is a sequence gap.\<close>

theorem offset_first_crash_loses_event:
  fixes s :: "('d, 'x) process_scheme"
  assumes "store_consumer C K E fuel" and "state_write_order (cn_settings C) = OFFSET_FIRST"
    and "state_crash_after (cn_settings C) = OFFSET_COMMIT" and "sound C E s" and "carries C m ev"
    and "(case fold_of C E s (m_partition m) (ev_order_id ev) of None \<Rightarrow> 0 | Some g \<Rightarrow> f_last_sequence g) < ev_sequence ev"
    and "ev_sequence ev' = ev_sequence ev + 1"
  shows "\<exists>t. handle_message C m s = (Exit 1, t) \<and> fold_of C E t = fold_of C E s \<and>
    trace t = trace s @ [(CommitOffset (m_topic m) (m_partition m) (m_offset m + 1), None)] \<and>
    (\<exists>v \<in> set (reported (fold_of C E t (m_partition m) (ev_order_id ev)) ev'). v_type v = SEQUENCE_GAP)"
proof -
  obtain t where t: "handle_message C m s = (Exit 1, t)" "fold_of C E t = fold_of C E s"
    "trace t = trace s @ [(CommitOffset (m_topic m) (m_partition m) (m_offset m + 1), None)]"
    using handle_offset_first_crash [OF assms(1-5)] by blast
  have "last_of (fold_of C E t (m_partition m) (ev_order_id ev)) + 1 < ev_sequence ev'"
    using assms(6,7) unfolding t(2) by (simp split: option.splits)
  from later_event_gap [OF this] t show ?thesis by blast
qed

theorem offset_first_crash_loses_event_witness:
  "\<exists>t. handle_message (lever_consumer OFFSET_FIRST OFFSET_COMMIT) demo_message tx_process = (Exit 1, t) \<and>
     trace t = [(CommitOffset ''order-lifecycle'' 0 8, None)]"
proof -
  have ok: "sound (lever_consumer OFFSET_FIRST OFFSET_COMMIT) map_engine tx_process" by (simp add: tx_process_ok)
  have seq: "0 < ev_sequence demo_event" by (simp add: demo_event_def)
  have tr: "trace tx_process = []" by (simp add: tx_process_def)
  from offset_first_crash_loses_event [OF lever_store_consumer _ _ ok lever_carries,
      of "demo_event\<lparr>ev_sequence := ev_sequence demo_event + 1\<rparr>"] seq
  show ?thesis by (auto simp: tx_process_empty tr demo_message_def)
qed

text \<open>The memory backend keeps its amnesia. With no sequence guard, a redelivered older event sets the
  fold back to its own sequence number, and the event that follows the newest one is then reported as
  a gap that never happened.\<close>

lemma memory_redelivery_reports_gap:
  fixes s :: "('d, 'x) process_scheme"
  assumes "memory_consumer C K universe" and "carries C m ev"
    and "mem_partition s (m_partition m) (ev_order_id ev) = Some g" and "ev_sequence ev < f_last_sequence g"
    and "ev_sequence ev' = f_last_sequence g + 1"
  shows "\<exists>t f. handle_message C m s = (Ok (), t) \<and>
    mem_partition t (m_partition m) (ev_order_id ev) = Some f \<and> f_last_sequence f = ev_sequence ev \<and>
    filter is_violation (markers t) = filter is_violation (markers s) \<and>
    (\<exists>v \<in> set (reported (Some f) ev'). v_type v = SEQUENCE_GAP)"
proof -
  let ?f = "fst (apply_event (Some g) ev)"
  obtain t where t: "handle_message C m s = (Ok (), t)"
    "violations t = violations s @ map (\<lambda>v. VIOLATION (as_log_fields v)) (reported (Some g) ev)"
    "mem_partition t (m_partition m) (ev_order_id ev) = Some ?f"
    using handle_memory [OF assms(1,2), of s] assms(3) by auto
  have "reported (Some g) ev = []" using assms(4) by (simp add: reported_def)
  moreover have "\<exists>v \<in> set (reported (Some ?f) ev'). v_type v = SEQUENCE_GAP"
    using assms(4,5) by (intro later_event_gap) (simp add: apply_event_fields)
  ultimately show ?thesis using t by (intro exI [of _ t] exI [of _ ?f]) (simp add: apply_event_fields)
qed

lemma memory_redelivery_reports_gap_witness:
  "\<exists>t f. handle_message amnesiac_consumer demo_message
       (tx_process\<lparr>mem_folds := [0 \<mapsto> [''ord-1'' \<mapsto> \<lparr>f_order_id = ''ord-1'', f_last_sequence = 9, f_state = None\<rparr>]]\<rparr>) = (Ok (), t) \<and>
     mem_partition t 0 ''ord-1'' = Some f \<and> f_last_sequence f = ev_sequence demo_event"
proof -
  have oid: "ev_order_id demo_event = ''ord-1''" "m_partition demo_message = 0" "ev_sequence demo_event < 9"
    by (simp_all add: demo_event_def demo_message_def)
  have car: "carries amnesiac_consumer demo_message demo_event"
    using lever_carries [of STATE_FIRST NO_CRASH] by (simp add: carries_def for_us_def amnesiac_consumer_def split: option.splits)
  let ?s = "tx_process\<lparr>mem_folds := [0 \<mapsto> [''ord-1'' \<mapsto> \<lparr>f_order_id = ''ord-1'', f_last_sequence = 9, f_state = None\<rparr>]]\<rparr>"
  have g: "mem_partition ?s (m_partition demo_message) (ev_order_id demo_event) =
      Some \<lparr>f_order_id = ''ord-1'', f_last_sequence = 9, f_state = None\<rparr>"
    by (simp add: mem_partition_def oid)
  from memory_redelivery_reports_gap [OF amnesiac_memory car g, of "demo_event\<lparr>ev_sequence := 10\<rparr>"] oid
  show ?thesis by auto
qed

end
