(* ===== verification/Escapes.thy ===== *)
theory Escapes
  imports Services
begin

text \<open>
  Which exceptions leave the consume loop of \<^verbatim>\<open>src/order_service/consumer/runtime.py\<close> and what becomes of
  them in \<^verbatim>\<open>main.py\<close>. \<open>ends Q N m\<close> types a computation by how it may end: it raises only exceptions in
  \<open>Q\<close> and stops the process only with codes in \<open>N\<close>. The rules push the typing through the
  combinators, every operation of the stores, the committers, the router and the loop gets its type
  once, and the type of \<open>main_service\<close> is read off at the end.
\<close>

named_theorems ends_rules \<open>rules that type a computation by how it may end\<close>

section \<open>Typing computations\<close>

definition ends :: "(exn \<Rightarrow> bool) \<Rightarrow> int set \<Rightarrow> ('s, 'a) comp \<Rightarrow> bool" where
  "ends Q N m \<longleftrightarrow> (\<forall>s. case fst (m s) of Ok _ \<Rightarrow> True | Raise e \<Rightarrow> Q e | Exit n \<Rightarrow> n \<in> N)"

lemma endsD:
  "ends Q N m \<Longrightarrow> m s = (Raise e, t) \<Longrightarrow> Q e"
  "ends Q N m \<Longrightarrow> m s = (Exit n, t) \<Longrightarrow> n \<in> N"
  unfolding ends_def by (metis fst_conv outcome.simps(11), metis fst_conv outcome.simps(12))

lemma endsI:
  assumes "\<And>s e t. m s = (Raise e, t) \<Longrightarrow> Q e" and "\<And>s n t. m s = (Exit n, t) \<Longrightarrow> n \<in> N"
  shows "ends Q N m"
  unfolding ends_def
proof
  fix s
  show "case fst (m s) of Ok _ \<Rightarrow> True | Raise e \<Rightarrow> Q e | Exit n \<Rightarrow> n \<in> N"
    using assms by (cases "m s"; cases "fst (m s)") auto
qed

lemma ends_ret [ends_rules]: "ends Q N (ret a)"
  by (simp add: ends_def ret_def)

lemma ends_raise [ends_rules]: "Q e \<Longrightarrow> ends Q N (raise e)"
  by (simp add: ends_def raise_def)

lemma ends_exit [ends_rules]: "n \<in> N \<Longrightarrow> ends Q N (hard_exit n)"
  by (simp add: ends_def hard_exit_def)

lemma ends_gets [ends_rules]: "ends Q N (gets f)"
  by (simp add: ends_def gets_def)

lemma ends_modify [ends_rules]: "ends Q N (modify f)"
  by (simp add: ends_def modify_def)

lemma ends_mark [ends_rules]: "ends Q N (mark x)"
  by (simp add: ends_def)

lemma ends_bind [ends_rules]: "ends Q N m \<Longrightarrow> (\<And>a. ends Q N (f a)) \<Longrightarrow> ends Q N (bindC m f)"
  by (rule endsI; auto simp: bindC_def dest: endsD split: prod.splits outcome.splits)

text \<open>The handler sees only what the body raises.\<close>

lemma ends_try: "ends R N m \<Longrightarrow> (\<And>e. R e \<Longrightarrow> ends Q N (h e)) \<Longrightarrow> ends Q N (tryC m h)"
  by (rule endsI; auto simp: tryC_def dest: endsD split: prod.splits outcome.splits)

lemma ends_finally [ends_rules]: "ends Q N m \<Longrightarrow> ends Q N f \<Longrightarrow> ends Q N (finallyC m f)"
  by (rule endsI; auto simp: finallyC_def dest: endsD split: prod.splits outcome.splits)

lemma ends_for [ends_rules]: "(\<And>x. ends Q N (f x)) \<Longrightarrow> ends Q N (forC xs f)"
  by (induction xs) (auto intro: ends_rules)

lemma ends_if [ends_rules]: "(b \<Longrightarrow> ends Q N m) \<Longrightarrow> (\<not> b \<Longrightarrow> ends Q N n) \<Longrightarrow> ends Q N (if b then m else n)"
  by simp

lemma ends_option [ends_rules]:
  "(x = None \<Longrightarrow> ends Q N m) \<Longrightarrow> (\<And>a. x = Some a \<Longrightarrow> ends Q N (f a)) \<Longrightarrow> ends Q N (case x of None \<Rightarrow> m | Some a \<Rightarrow> f a)"
  by (cases x) auto

lemma ends_sum [ends_rules]:
  "(\<And>a. x = Inl a \<Longrightarrow> ends Q N (f a)) \<Longrightarrow> (\<And>b. x = Inr b \<Longrightarrow> ends Q N (g b)) \<Longrightarrow>
   ends Q N (case x of Inl a \<Rightarrow> f a | Inr b \<Rightarrow> g b)"
  by (cases x) auto

lemma ends_prod [ends_rules]: "(\<And>a b. ends Q N (f a b)) \<Longrightarrow> ends Q N (case x of (a, b) \<Rightarrow> f a b)"
  by (cases x) auto

lemma ends_polled [ends_rules]:
  "(r = NoMessage \<Longrightarrow> ends Q N a) \<Longrightarrow> (r = PartitionEOF \<Longrightarrow> ends Q N b) \<Longrightarrow>
   (\<And>t f. r = PollError t f \<Longrightarrow> ends Q N (d t f)) \<Longrightarrow> (\<And>m. r = Polled m \<Longrightarrow> ends Q N (g m)) \<Longrightarrow>
   ends Q N (case r of NoMessage \<Rightarrow> a | PartitionEOF \<Rightarrow> b | PollError t f \<Rightarrow> d t f | Polled m \<Rightarrow> g m)"
  by (cases r) auto

lemma ends_mono: "ends R M m \<Longrightarrow> (\<And>e. R e \<Longrightarrow> Q e) \<Longrightarrow> M \<subseteq> N \<Longrightarrow> ends Q N m"
  by (rule endsI) (auto dest: endsD)

section \<open>What the client raises\<close>

fun is_produce :: "kcall \<Rightarrow> bool" where
  "is_produce (Produce _ _ _ _ _) = True"
| "is_produce _ = False"

text \<open>The client's documentation: a full queue is reported by \<^verbatim>\<open>produce\<close> alone.\<close>

definition client_ok :: "kafka \<Rightarrow> bool" where
  "client_ok K \<longleftrightarrow> kafka_ok K \<and> (\<forall>h k t. k_raises K h k = Some (BufferError t) \<longrightarrow> is_produce k)"

definition client_exn :: "kcall \<Rightarrow> exn \<Rightarrow> bool" where
  "client_exn k e \<longleftrightarrow> (\<exists>n t. e = KafkaException n t) \<or> (\<exists>t. e = BufferError t) \<and> is_produce k"

lemma client_raises: "client_ok K \<Longrightarrow> k_raises K h k = Some e \<Longrightarrow> client_exn k e"
  unfolding client_ok_def kafka_ok_def client_exn_def by metis

lemma ends_call_exact: "client_ok K \<Longrightarrow> ends (client_exn k) N (call K k)"
  by (rule endsI) (auto simp: call_def dest: client_raises split: option.splits)

lemma ends_ask_exact: "client_ok K \<Longrightarrow> ends (client_exn k) N (ask K k f)"
  unfolding ask_def by (intro ends_rules ends_call_exact)

lemma ends_call [ends_rules]:
  "client_ok K \<Longrightarrow> \<not> is_produce k \<Longrightarrow> (\<And>n t. Q (KafkaException n t)) \<Longrightarrow> ends Q N (call K k)"
  by (rule ends_mono [OF ends_call_exact]) (auto simp: client_exn_def)

lemma ends_ask [ends_rules]:
  "client_ok K \<Longrightarrow> \<not> is_produce k \<Longrightarrow> (\<And>n t. Q (KafkaException n t)) \<Longrightarrow> ends Q N (ask K k f)"
  unfolding ask_def by (intro ends_rules)

lemma ends_try_call [ends_rules]:
  "client_ok K \<Longrightarrow> (\<And>n t. ends Q N (h (KafkaException n t))) \<Longrightarrow>
   (\<And>t. is_produce k \<Longrightarrow> ends Q N (h (BufferError t))) \<Longrightarrow> ends Q N (tryC (call K k) h)"
  by (rule ends_try [OF ends_call_exact]) (auto simp: client_exn_def)

lemma ends_try_ask [ends_rules]:
  "client_ok K \<Longrightarrow> \<not> is_produce k \<Longrightarrow> (\<And>n t. ends Q N (h (KafkaException n t))) \<Longrightarrow> ends Q N (tryC (ask K k f) h)"
  by (rule ends_try [OF ends_ask_exact]) (auto simp: client_exn_def)

text \<open>Flushing and polling the producer never raise.\<close>

lemma ends_flush [ends_rules]: "client_ok K \<Longrightarrow> ends Q N (producer_flush K)"
  by (rule endsI)
    (auto simp: client_ok_def kafka_ok_def producer_flush_def ask_def call_def bindC_def gets_def ret_def
      serve_reports_def modify_def split: option.splits)

lemma ends_poll [ends_rules]: "client_ok K \<Longrightarrow> ends Q N (producer_poll K)"
  by (rule endsI)
    (auto simp: client_ok_def kafka_ok_def producer_poll_def ask_def call_def bindC_def gets_def
      serve_reports_def modify_def split: option.splits)

section \<open>What leaves the loop\<close>

text \<open>Exceptions \<^verbatim>\<open>main\<close> has no clause for: an undecodable key, a retry schedule that does not parse,
  a due time out of range, and the end of the fuel of a restore.\<close>

fun stray :: "settings \<Rightarrow> exn \<Rightarrow> bool" where
  "stray c (OtherError k t) = (k \<in> {''UnicodeDecodeError'', ''OverflowError'', ''OutOfFuel''})"
| "stray c (ValueError t) = (retry_backoff_schedule c = None)"
| "stray c _ = False"

definition loop_exn :: "settings \<Rightarrow> exn \<Rightarrow> bool" where
  "loop_exn c e \<longleftrightarrow> exit_code e = Some 1 \<or> stray c e"

lemma loop_exn_simps [simp]:
  "loop_exn c (KafkaException n t)" "loop_exn c (StateStoreUnavailable t)" "loop_exn c (ProducerFenced t)"
  "loop_exn c (OtherError ''UnicodeDecodeError'' t)" "loop_exn c (OtherError ''OverflowError'' t)"
  "loop_exn c (OtherError ''OutOfFuel'' t)"
  by (simp_all add: loop_exn_def exit_code_def)

abbreviation settles :: "settings \<Rightarrow> ('s, 'a) comp \<Rightarrow> bool" where
  "settles c \<equiv> ends (loop_exn c) {1}"

section \<open>The stores\<close>

lemma ends_on_disk [ends_rules]: "(\<And>t. Q (StateStoreUnavailable t)) \<Longrightarrow> ends Q N (on_disk f wrap)"
  by (rule endsI) (auto simp: on_disk_def split: prod.splits option.splits)

lemma settles_store_for [ends_rules]: "settles c (store_for E c' gid p)"
  unfolding store_for_def by (intro ends_rules) simp_all

lemma settles_local_get [ends_rules]: "settles c (local_get E c' gid p oid what)"
  unfolding local_get_def by (intro ends_rules) simp_all

lemma decode_record_exn: "decode_record oid w = Inl e \<Longrightarrow> \<exists>t. e = StateStoreUnavailable t"
  by (auto simp: decode_record_def split: option.splits)

lemma settles_local_read [ends_rules]: "settles c (local_read E c' gid p oid)"
  unfolding local_read_def by (intro ends_rules) (auto dest: decode_record_exn)

lemma settles_publish [ends_rules]: "client_ok K \<Longrightarrow> settles c (local_publish K c' gid oid v)"
  unfolding local_publish_def Let_def
  by (intro ends_rules; simp add: enqueue_error_def) (intro ends_rules; simp add: enqueue_error_def)+

lemma settles_store:
  assumes "client_ok K"
  shows "settles c (local_load E c' gid p oid)" "settles c (local_save K E c' gid p oid f eid)"
    "settles c (local_delete K E c' gid p oid)" "settles c (local_flush K)"
  unfolding local_load_def local_save_def local_write_def local_delete_def local_flush_def Let_def
  by (intro ends_rules assms; simp)+

lemma changelog_key_exn: "changelog_key m = Inl e \<Longrightarrow> loop_exn c e"
  by (auto simp: changelog_key_def split: option.splits)

lemma settles_apply [ends_rules]: "settles c (apply_changelog E c' gid p m oid live)"
  unfolding apply_changelog_def Let_def by (intro ends_rules) simp_all

lemma settles_drain:
  assumes "client_ok K"
  shows "settles c (drain K E c' gid p high fuel next records live)"
proof (induction fuel arbitrary: "next" records live)
  case 0
  show ?case by (subst drain.simps) (auto intro!: ends_rules)
next
  case (Suc n)
  show ?case
    by (subst drain.simps) (auto intro!: ends_rules Suc.IH assms dest: changelog_key_exn)
qed

lemma settles_restore_body [ends_rules]:
  assumes "client_ok K"
  shows "settles c (restore_body K E c' gid fuel p)"
proof -
  have "settles c (await_metadata K c' gid p)"
    unfolding await_metadata_def Let_def
    by (intro ends_rules assms; simp add: ends_raise split: topic_info.split) (auto intro: ends_rules)
  moreover have "settles c (start_offset E c' gid p low)" for low
    unfolding start_offset_def local_destroy_def by (intro ends_rules) simp_all
  ultimately show ?thesis
    unfolding restore_body_def Let_def by (intro ends_rules settles_drain assms; simp add: ends_raise)
qed

lemma settles_release:
  assumes "client_ok K"
  shows "settles c (local_restore K E c' gid fuel ps)" "ends Q N (local_forget K E c' gid ps)"
    "settles c (local_discard E c' gid ps)" "ends Q N (local_close K E c' gid)"
proof -
  show f: "ends Q N (local_forget K E c' gid ps)" for ps
    unfolding local_forget_def write_checkpoint_def by (intro ends_rules assms)
  then show "ends Q N (local_close K E c' gid)" unfolding local_close_def by (intro ends_rules)
  show "settles c (local_restore K E c' gid fuel ps)"
    unfolding local_restore_def restore_one_def by (intro ends_rules assms; simp)
  show "settles c (local_discard E c' gid ps)"
    unfolding local_discard_def Let_def by (intro ends_rules; simp)
qed

text \<open>Every operation of a store settles, whichever backend it is.\<close>

definition store_settles :: "settings \<Rightarrow> 's store_ops \<Rightarrow> bool" where
  "store_settles c S \<longleftrightarrow>
     (\<forall>p oid. settles c (st_load S p oid)) \<and> (\<forall>p oid f eid. settles c (st_save S p oid f eid)) \<and>
     (\<forall>p oid. settles c (st_delete S p oid)) \<and> (\<forall>ps. settles c (st_restore S ps)) \<and>
     settles c (st_flush S) \<and> (\<forall>ps. settles c (st_forget S ps)) \<and> (\<forall>ps. settles c (st_discard S ps)) \<and>
     (\<forall>Q N. ends Q N (st_close S))"

lemma local_ops_settle: "client_ok K \<Longrightarrow> store_settles c (local_ops K E c' gid fuel)"
  by (simp add: store_settles_def local_ops_def settles_store settles_release)

lemma memory_ops_settle: "store_settles c (memory_ops universe)"
proof -
  have "settles c (mem_save p oid f eid)" "settles c (mem_delete p oid)" for p oid f eid
    by (simp_all add: ends_def mem_save_def mem_delete_def Let_def)
  then show ?thesis
    by (auto simp: store_settles_def memory_ops_def mem_load_def mem_restore_def mem_flush_def mem_forget_def
        mem_discard_def intro: ends_rules)
qed

section \<open>The commit strategies\<close>

definition commits_settle :: "settings \<Rightarrow> 's commit_ops \<Rightarrow> bool" where
  "commits_settle c S \<longleftrightarrow>
     (\<forall>m. settles c (cs_note S m)) \<and> settles c (cs_maybe_commit S) \<and> (\<forall>why. settles c (cs_abort S why)) \<and>
     settles c (cs_close S)"

lemma direct_ops_settle: "client_ok K \<Longrightarrow> commits_settle c (direct_ops K)"
  by (auto simp: commits_settle_def direct_ops_def direct_note_def intro!: ends_rules)

lemma settles_fenced [ends_rules]: "settles c (fenced_or_raise tid (KafkaException n t))"
  unfolding fenced_or_raise_def raise_if_fenced_def exn.case by (intro ends_rules) simp_all

lemma settles_raise_if_fenced [ends_rules]: "settles c (raise_if_fenced tid e)"
  unfolding raise_if_fenced_def by (intro ends_rules) simp_all

lemma settles_tx_note: "client_ok K \<Longrightarrow> settles c (tx_note K tid m)"
  unfolding tx_note_def begin_if_needed_def by (intro ends_rules; simp)

lemma settles_tx_commit [ends_rules]:
  assumes "client_ok K"
  shows "settles c (tx_commit K tid)"
proof -
  let ?kafka = "\<lambda>e. \<exists>n t. e = KafkaException n t"
  show ?thesis
    unfolding tx_commit_def tx_reset_def
    by (intro ends_rules ends_try [where R = ?kafka]; (intro ends_rules assms)?) (auto intro: ends_rules)
qed

lemma settles_tx_abort [ends_rules]: "client_ok K \<Longrightarrow> settles c (tx_abort K tid why)"
  unfolding tx_abort_def tx_reset_def by (intro ends_rules; simp add: ends_rules)

lemma tx_ops_settle: "client_ok K \<Longrightarrow> commits_settle c (tx_ops K c' tid)"
  by (auto simp: commits_settle_def tx_ops_def tx_maybe_commit_def tx_close_def
      intro!: ends_rules settles_tx_note)

section \<open>The router and the handlers\<close>

definition route_exn :: "settings \<Rightarrow> exn \<Rightarrow> bool" where
  "route_exn c e \<longleftrightarrow> (\<exists>t. e = FailurePublishFailed t) \<or> loop_exn c e"

lemma route_exn_simps [simp]: "route_exn c (FailurePublishFailed t)"
  by (simp add: route_exn_def)

lemma router_publish_exn [ends_rules]: "client_ok K \<Longrightarrow> ends (route_exn c) {1} (router_publish K c' topic m hdrs)"
  unfolding router_publish_def by (intro ends_rules; simp add: ends_rules)

lemma backoff_exn: "backoff_for_attempt c n = None \<Longrightarrow> route_exn c (ValueError t)"
  using retry_backoff_schedule_nonempty [of c]
  by (fastforce simp: backoff_for_attempt_def route_exn_def loop_exn_def Let_def split: if_splits bind_splits)

lemma to_retry_exn [ends_rules]: "client_ok K \<Longrightarrow> ends (route_exn c) {1} (to_retry K c m og sv gid n e)"
  unfolding to_retry_def Let_def by (intro ends_rules backoff_exn; simp add: route_exn_def)

lemma to_dead_letter_exn [ends_rules]: "client_ok K \<Longrightarrow> ends (route_exn c) {1} (to_dead_letter K c' m og sv gid n e)"
  unfolding to_dead_letter_def by (intro ends_rules)

text \<open>What a handler raises is routed; it must not end the process itself.\<close>

definition handlers_return :: "(event_type \<rightharpoonup> 's handler) \<Rightarrow> bool" where
  "handlers_return H \<longleftrightarrow> (\<forall>et h ev. H et = Some h \<longrightarrow> ends (\<lambda>_. True) {} (h ev))"

lemma registered_handlers_typed:
  assumes "build_spec P name = Inr spec"
  shows "handlers_return (sp_handlers spec)"
  by (rule build_spec_cases [OF assms])
    (auto simp: handlers_return_def inventory_service_def notification_service_def analytics_service_def
      reserve_stock_def release_reservation_def notify_def count_event_def Let_def
      intro!: ends_rules split: if_splits)

section \<open>The loop\<close>

definition typed_consumer :: "('x client_scheme) consumer \<Rightarrow> bool" where
  "typed_consumer C \<longleftrightarrow> client_ok (cn_kafka C) \<and> store_settles (cn_settings C) (cn_store C) \<and>
     commits_settle (cn_settings C) (cn_commits C) \<and> handlers_return (cn_handlers C)"

lemma typed_client [ends_rules]: "typed_consumer C \<Longrightarrow> client_ok (cn_kafka C)"
  by (simp add: typed_consumer_def)

lemma typed_store [ends_rules]:
  assumes "typed_consumer C"
  shows "settles (cn_settings C) (st_load (cn_store C) p oid)"
    "settles (cn_settings C) (st_save (cn_store C) p oid f eid)"
    "settles (cn_settings C) (st_delete (cn_store C) p oid)" "settles (cn_settings C) (st_restore (cn_store C) ps)"
    "settles (cn_settings C) (st_flush (cn_store C))" "settles (cn_settings C) (st_forget (cn_store C) ps)"
    "settles (cn_settings C) (st_discard (cn_store C) ps)"
  using assms by (simp_all add: typed_consumer_def store_settles_def)

lemma typed_commits [ends_rules]:
  assumes "typed_consumer C"
  shows "settles (cn_settings C) (commit_message C m)" "settles (cn_settings C) (cs_maybe_commit (cn_commits C))"
    "settles (cn_settings C) (cs_abort (cn_commits C) why)" "settles (cn_settings C) (cs_close (cn_commits C))"
  using assms by (simp_all add: typed_consumer_def commits_settle_def commit_message_def)

lemma settles_persist [ends_rules]:
  "typed_consumer C \<Longrightarrow> settles (cn_settings C) (persist_and_commit C m ev f p)"
  unfolding persist_and_commit_def save_fold_def crash_if_configured_def by (intro ends_rules; simp)

lemma settles_rewind [ends_rules]: "typed_consumer C \<Longrightarrow> settles c (rewind C m)"
  unfolding rewind_def by (intro ends_rules; simp add: ends_rules)

text \<open>A failure that could not be published is caught; the rest of what the router raises goes on.\<close>

lemma settles_route [ends_rules]:
  "typed_consumer C \<Longrightarrow> settles (cn_settings C) (route_failure C m exc ev attempt)"
  unfolding route_failure_def Let_def
  by (intro ends_rules ends_try [where R = "route_exn (cn_settings C)"])
    (auto simp: route_exn_def intro!: ends_rules split: exn.split)

lemma settles_run_handler [ends_rules]:
  assumes "typed_consumer C"
  shows "settles c (run_handler C ev attempt)"
  unfolding run_handler_def
proof (rule ends_try [where R = "\<lambda>_. True"])
  have "ends (\<lambda>_. True) {1} (h ev)" if "cn_handlers C (ev_type ev) = Some h" for h
    using assms that ends_mono [of "\<lambda>_. True" "{}" "h ev"]
    by (auto simp: typed_consumer_def handlers_return_def)
  then show "ends (\<lambda>_. True) {1}
      (thenC (case maybe_fail (cn_settings C) ev attempt of None \<Rightarrow> ret () | Some x \<Rightarrow> raise x)
      (thenC (case cn_handlers C (ev_type ev) of None \<Rightarrow> ret () | Some h \<Rightarrow> h ev) (ret None)))"
    by (intro ends_rules) simp_all
  show "settles c (case e of StateStoreUnavailable x \<Rightarrow> raise e | _ \<Rightarrow> ret (Some e))" for e
    by (cases e) (auto intro: ends_rules)
qed

lemma settles_handle [ends_rules]:
  assumes "typed_consumer C"
  shows "settles (cn_settings C) (handle_message C m)"
proof -
  have "settles c (log_key m)" for c
    unfolding log_key_def by (intro ends_rules) simp_all
  then show ?thesis
    unfolding handle_message_def handle_tombstone_def fold_message_def Let_def
    by (intro ends_rules assms)
qed

lemma settles_repair [ends_rules]:
  "typed_consumer C \<Longrightarrow> settles (cn_settings C) (abort_and_repair C why)"
  unfolding abort_and_repair_def rewind_partition_def Let_def
  by (intro ends_rules ends_try [where R = "\<lambda>e. \<exists>n t. e = KafkaException n t"]) (auto intro!: ends_rules)

lemma settles_settle [ends_rules]: "typed_consumer C \<Longrightarrow> settles (cn_settings C) (settle C)"
  unfolding settle_def
  by (rule ends_try [where R = "loop_exn (cn_settings C)"]) (auto intro!: ends_rules split: exn.split)

lemma settles_step [ends_rules]:
  "typed_consumer C \<Longrightarrow> settles (cn_settings C) (loop_step C i)"
  by (induction C i rule: loop_step.induct)
    (auto simp: on_assign_def on_revoke_def on_lost_def log_membership_def intro!: ends_rules)

lemma settles_run:
  "typed_consumer C \<Longrightarrow> settles (cn_settings C) (run C inputs)"
  unfolding run_def consume_def
  by (intro ends_rules ends_try [where R = "loop_exn (cn_settings C)"]) (auto intro!: ends_rules split: exn.split)

section \<open>The entry point\<close>

lemma ends_bind_value:
  assumes m: "ends Q N m" and f: "\<And>a s t. m s = (Ok a, t) \<Longrightarrow> ends Q N (f a)"
  shows "ends Q N (bindC m f)"
proof (rule endsI)
  fix s e t
  show "bindC m f s = (Raise e, t) \<Longrightarrow> Q e"
    by (auto simp: bindC_def dest: endsD(1) [OF m] endsD(1) [OF f] split: prod.splits outcome.splits)
next
  fix s n t
  show "bindC m f s = (Exit n, t) \<Longrightarrow> n \<in> N"
    by (auto simp: bindC_def dest: endsD(2) [OF m] endsD(2) [OF f] split: prod.splits outcome.splits)
qed

lemma build_store_settles:
  assumes "client_ok K" and "tryC (build_store K E mkdir fuel universe c gid)
      (\<lambda>e. case e of StateStoreUnavailable _ \<Rightarrow> hard_exit 2 | _ \<Rightarrow> raise e) s = (Ok S, t)"
  shows "store_settles c S"
proof -
  have "S = memory_ops universe \<or> S = local_ops K E c gid fuel"
    using assms(2)
    by (auto simp: tryC_def build_store_def local_init_def bindC_def modify_def ret_def raise_def hard_exit_def
        split: if_splits option.splits prod.splits outcome.splits exn.splits)
  then show ?thesis using local_ops_settle [OF assms(1)] memory_ops_settle by auto
qed

lemma service_consumer_typed:
  assumes K: "client_ok K" and S: "store_settles c S" and H: "handlers_return (sp_handlers spec)"
    and run: "tryC (service_consumer K host P fresh spec c S)
      (\<lambda>e. case e of ConsumerConfigError _ \<Rightarrow> thenC (st_close S) (hard_exit 2)
        | ProducerFenced _ \<Rightarrow> thenC (st_close S) (hard_exit 2) | _ \<Rightarrow> raise e) s = (Ok C, t)"
  shows "typed_consumer C \<and> cn_settings C = c"
proof -
  have "thenC (st_close S) (hard_exit 2) u \<noteq> (Ok C, v)" for u v
    by (auto simp: bindC_def hard_exit_def split: prod.splits outcome.splits)
  with run obtain u where "service_consumer K host P fresh spec c S s = (Ok C, u)"
    by (auto simp: tryC_def raise_def split: prod.splits outcome.splits exn.splits)
  then show ?thesis
    using K S H direct_ops_settle [OF K] tx_ops_settle [OF K]
    by (auto simp: service_consumer_def build_commit_strategy_def raise_def ret_def Let_def typed_consumer_def
        elim!: bindC_OkE split: sum.splits if_splits)
qed

definition main_exn :: "settings \<Rightarrow> exn \<Rightarrow> bool" where
  "main_exn c e \<longleftrightarrow> stray c e \<or> (processing_guarantee c = EXACTLY_ONCE \<and> (\<exists>n t. e = KafkaException n t))"

lemma build_store_ends: "ends (main_exn c) {1, 2} (tryC (build_store K E mkdir fuel universe c' gid)
    (\<lambda>e. case e of StateStoreUnavailable _ \<Rightarrow> hard_exit 2 | _ \<Rightarrow> raise e))"
  by (rule ends_try [where R = "\<lambda>e. \<exists>t. e = StateStoreUnavailable t"])
    (auto simp: build_store_def local_init_def intro!: ends_rules split: option.split)

lemma build_consumer_config_exn: "build_consumer_config c gid cid = Inl e \<Longrightarrow> \<exists>t. e = ConsumerConfigError t"
  by (auto simp: build_consumer_config_def validate_protocol_settings_def Let_def split: option.splits if_splits)

lemma service_consumer_ends:
  assumes K: "client_ok K" and S: "store_settles c S"
  shows "ends (main_exn c) {1, 2} (tryC (service_consumer K host P fresh spec c S)
      (\<lambda>e. case e of ConsumerConfigError _ \<Rightarrow> thenC (st_close S) (hard_exit 2)
        | ProducerFenced _ \<Rightarrow> thenC (st_close S) (hard_exit 2) | _ \<Rightarrow> raise e))"
proof (rule ends_try [where R = "\<lambda>e. (\<exists>t. e = ConsumerConfigError t \<or> e = ProducerFenced t) \<or>
    (processing_guarantee c = EXACTLY_ONCE \<and> (\<exists>n t. e = KafkaException n t))"])
  show "ends (\<lambda>e. (\<exists>t. e = ConsumerConfigError t \<or> e = ProducerFenced t) \<or>
      (processing_guarantee c = EXACTLY_ONCE \<and> (\<exists>n t. e = KafkaException n t))) {1, 2}
      (service_consumer K host P fresh spec c S)"
    unfolding service_consumer_def build_commit_strategy_def tx_init_def tx_reset_def Let_def
    by (intro ends_rules K; (auto dest: build_consumer_config_exn)?)
      (auto simp: fenced_or_raise_def raise_if_fenced_def intro!: ends_rules)
  have "ends (main_exn c) {1, 2} (st_close S)" using S by (simp add: store_settles_def)
  then show "ends (main_exn c) {1, 2} (case e of ConsumerConfigError _ \<Rightarrow> thenC (st_close S) (hard_exit 2)
        | ProducerFenced _ \<Rightarrow> thenC (st_close S) (hard_exit 2) | _ \<Rightarrow> raise e)"
    if "(\<exists>t. e = ConsumerConfigError t \<or> e = ProducerFenced t) \<or>
      (processing_guarantee c = EXACTLY_ONCE \<and> (\<exists>n t. e = KafkaException n t))" for e
    using that by (auto simp: main_exn_def intro!: ends_rules)
qed

text \<open>The \<^verbatim>\<open>try\<close> around the loop turns what it has a clause for into the exit code 1.\<close>

lemma guarded_run_ends:
  assumes "client_ok K" and "typed_consumer C \<and> cn_settings C = c" and S: "store_settles c S"
  shows "ends (main_exn c) {1, 2} (finallyC (tryC (thenC (run C inputs) (ret None))
        (\<lambda>e. case exit_code e of Some n \<Rightarrow> ret (Some n) | None \<Rightarrow> raise e))
      (thenC (st_close S) (thenC (producer_flush K) (ret ()))))"
proof (intro ends_rules ends_try [where R = "loop_exn c"] assms(1))
  show "ends (loop_exn c) {1, 2} (run C inputs)"
    using settles_run [of C inputs] assms(2) by (auto intro: ends_mono)
  show "ends (main_exn c) {1, 2} (st_close S)" using S by (simp add: store_settles_def)
qed (auto simp: loop_exn_def main_exn_def)

lemma guarded_run_code:
  "finallyC (tryC (thenC (run C inputs) (ret None))
      (\<lambda>e. case exit_code e of Some n \<Rightarrow> ret (Some n) | None \<Rightarrow> raise e)) f u = (Ok (Some n), v) \<Longrightarrow> n = 1"
  by (auto simp: finallyC_def tryC_def bindC_def ret_def raise_def exit_code_def
      split: prod.splits outcome.splits option.splits exn.splits)

lemma main_service_ends:
  assumes "client_ok K" and "load_settings raw = Inr c"
  shows "ends (main_exn c) {1, 2} (main_service K E mkdir fuel universe host P fresh raw inputs)"
  unfolding main_service_def assms(2) sum.case
  by (rule ends_sum, simp add: ends_exit, rule ends_bind_value [OF build_store_ends],
      rule ends_bind_value [OF service_consumer_ends], (rule assms(1) build_store_settles | assumption)+,
      rule ends_bind_value [OF guarded_run_ends],
      (rule service_consumer_typed build_store_settles assms(1) registered_handlers_typed | assumption)+)
    (auto dest: guarded_run_code intro!: ends_rules)

lemma script_client_ok: "client_ok (script_kafka ps n)"
  by (simp add: client_ok_def kafka_ok_def script_kafka_def)

section \<open>Properties\<close>



text \<open>C40. A key that is not UTF-8 stops a service for good. A message for this service whose value is a
  lifecycle event but whose key does not decode raises out of the loop, from the log line: no handler
  runs, nothing is published to the dead-letter topic, nothing is committed, and the consumer is
  closed. The next process gets the same message first and ends the same way.\<close>

theorem undecodable_key_stops_service:
  assumes "k_raises (cn_kafka C) = (\<lambda>_ _. None)" and "cn_commits C = direct_ops (cn_kafka C)"
    and "for_us C m" and "m_value m = Some raw"
    and "\<forall>now. decode_event (cn_pydantic C) (cn_fresh C) now raw = Inr ev"
    and "m_key m = Some k" and "utf8_decode k = None"
  shows "run C (Poll (Polled m) # rest) s =
    (Raise (OtherError ''UnicodeDecodeError'' ''invalid start byte''),
     s\<lparr>trace := trace s @ [(Subscribe [order_lifecycle_topic (cn_settings C), order_snapshot_topic (cn_settings C)], None),
        (CloseConsumer, None)]\<rparr>)"
proof -
  have "handle_message C m u = (Raise (OtherError ''UnicodeDecodeError'' ''invalid start byte''), u)" for u
    using assms(3-7)
    by (auto simp: handle_message_def for_us_def log_key_def bindC_def gets_def raise_def Let_def split: option.splits)
  then show ?thesis
    using assms(1,2)
    by (simp add: run_def consume_def call_def bindC_def tryC_def finallyC_def raise_def direct_ops_def ret_def)
qed

theorem undecodable_key_stops_service_witness:
  "\<exists>m. m_key m = Some [char_of (255 :: nat)] \<and>
     run (demo_consumer (script_kafka [] 0)) [Poll (Polled m)] fresh_process =
       (Raise (OtherError ''UnicodeDecodeError'' ''invalid start byte''),
        fresh_process\<lparr>trace := trace fresh_process @ [(Subscribe [''order-lifecycle'', ''order-snapshot''], None), (CloseConsumer, None)]\<rparr>)"
proof (intro exI conjI)
  let ?m = "demo_message\<lparr>m_key := Some [char_of (255 :: nat)]\<rparr>" and ?C = "demo_consumer (script_kafka [] 0)"
  have us: "for_us ?C ?m" by (simp add: for_us_def decode_headers_def demo_message_def default_settings_def)
  have raw: "m_value ?m = Some (json_dumps (dump_lifecycle_event strict_pydantic demo_event))"
    by (simp add: demo_message_def)
  have ev: "\<forall>now. decode_event (cn_pydantic ?C) (cn_fresh ?C) now (json_dumps (dump_lifecycle_event strict_pydantic demo_event)) =
      Inr demo_event"
    by (simp add: decode_event_def lifecycle_event_of_dump [OF strict_pydantic_ok])
  have key: "utf8_decode [char_of (255 :: nat)] = None" by (simp add: utf8_decode_def of_char_of)
  show "run ?C [Poll (Polled ?m)] fresh_process =
       (Raise (OtherError ''UnicodeDecodeError'' ''invalid start byte''),
        fresh_process\<lparr>trace := trace fresh_process @ [(Subscribe [''order-lifecycle'', ''order-snapshot''], None), (CloseConsumer, None)]\<rparr>)"
    using undecodable_key_stops_service [OF _ _ us raw ev _ key, of "[]" fresh_process]
    by (simp add: script_kafka_def default_settings_def)
qed simp

end
