(* ===== verification/Dlq_Replay.thy ===== *)
theory Dlq_Replay
  imports Runtime_Commit
begin

text \<open>
  \<^verbatim>\<open>src/order_service/tools/dlq_replay.py\<close>: the command-line tool that lists the dead letters and, when
  told to, republishes them to the topics they came from. The consumer it assigns by hand is the
  reader of \<open>kafka\<close>; its produce calls register no callback. The polling loop runs on fuel, one unit
  per poll, since a broker may deliver records of other partitions for as long as it likes;
  \<open>replay_ends\<close> says how much is enough. The report lines are \<open>LogLine\<close> markers;
  \<open>show_key\<close> is \<^verbatim>\<open>key.decode("utf-8", "replace")\<close>.
\<close>

section \<open>Snapshot\<close>

record snapshot =
  sn_assignments :: "(int \<times> int) list" \<comment> \<open>partition and first offset\<close>
  sn_end_offsets :: "(int \<times> int) list" \<comment> \<open>partition and high watermark\<close>

definition message_count :: "snapshot \<Rightarrow> int" where
  "message_count sn =
     sum_list (map (\<lambda>(p, low). case map_of (sn_end_offsets sn) p of
        Some e \<Rightarrow> if e > low then e - low else 0 | None \<Rightarrow> 0) (sn_assignments sn))"

definition INSPECT_GROUP :: string where
  "INSPECT_GROUP = ''dlq-replay-inspector''"

definition replay_consumer_config :: "settings \<Rightarrow> (string \<times> string) list" where
  "replay_consumer_config c =
     [(''bootstrap.servers'', kafka_bootstrap_servers c), (''group.id'', INSPECT_GROUP),
      (''enable.auto.commit'', ''False''), (''client.id'', ''dlq-replay'')]"

fun snapshot_partitions ::
    "kafka \<Rightarrow> string \<Rightarrow> int list \<Rightarrow> snapshot \<Rightarrow> ('x client_scheme, snapshot) comp" where
  "snapshot_partitions K topic [] sn = ret sn"
| "snapshot_partitions K topic (p # ps) sn =
     bindC (ask K (ReaderWatermarks topic p) (k_watermarks K)) (\<lambda>(low, high).
     snapshot_partitions K topic ps
       (if high \<le> low then sn
        else sn\<lparr>sn_assignments := sn_assignments sn @ [(p, low)],
                sn_end_offsets := sn_end_offsets sn @ [(p, high)]\<rparr>))"

definition snapshot_topic :: "kafka \<Rightarrow> string \<Rightarrow> ('x client_scheme, snapshot) comp" where
  "snapshot_topic K topic =
     bindC (ask K (ReaderListTopics topic) (k_metadata K)) (\<lambda>info.
     case info of
       Some (TopicPartitions ps) \<Rightarrow>
         snapshot_partitions K topic (sort (remdups ps)) \<lparr>sn_assignments = [], sn_end_offsets = []\<rparr>
     | Some (TopicInfoError t) \<Rightarrow> raise (KafkaException 0 (''cannot read metadata for '' @ topic @ '': '' @ t))
     | None \<Rightarrow> raise (KafkaException 0 (''cannot read metadata for '' @ topic @ '': None'')))"

section \<open>The report\<close>

definition ljust :: "nat \<Rightarrow> string \<Rightarrow> string" where
  "ljust w t = t @ replicate (w - code_points t) CHR '' ''"

definition hdr_or :: "headers \<Rightarrow> string \<Rightarrow> string \<Rightarrow> string" where
  "hdr_or hs n d = (case hs n of None \<Rightarrow> d | Some v \<Rightarrow> v)"

definition describe :: "(bytes \<Rightarrow> string) \<Rightarrow> message \<Rightarrow> headers \<Rightarrow> string" where
  "describe show_key m hs =
     (let key = (case m_key m of None \<Rightarrow> ''<null>'' | Some k \<Rightarrow> if k = [] then ''<null>'' else show_key k) in
      ''  '' @ ljust 24 key @ '' service='' @ ljust 13 (hdr_or hs HDR_SERVICE ''?'') @
      '' group='' @ ljust 22 (hdr_or hs HDR_CONSUMER_GROUP ''?'') @
      '' attempts='' @ ljust 2 (hdr_or hs HDR_ATTEMPTS_MADE ''?'') @
      '' origin='' @ hdr_or hs HDR_ORIGINAL_TOPIC ''?'' @ ''-'' @ hdr_or hs HDR_ORIGINAL_PARTITION ''?'' @
      ''@'' @ hdr_or hs HDR_ORIGINAL_OFFSET ''?'' @ [newline] @
      ''      '' @ hdr_or hs HDR_ERROR_CLASS ''?'' @ '': '' @ hdr_or hs HDR_ERROR_MESSAGE ''<no message>'')"

section \<open>The run\<close>

record replay_args =
  a_publish :: bool
  a_service :: "string option"
  a_include_poison :: bool
  a_limit :: int

definition NON_RETRYABLE_ERROR_CLASSES :: "string list" where
  "NON_RETRYABLE_ERROR_CLASSES = [''NonRetryableError'']"

record replay_counts =
  n_seen :: int
  n_matched :: int
  n_excluded :: int
  n_published :: int

text \<open>Is the message one the tool was asked about, and is it one replay cannot fix?\<close>

definition matches_service :: "replay_args \<Rightarrow> headers \<Rightarrow> bool" where
  "matches_service args hs \<longleftrightarrow>
     (case a_service args of None \<Rightarrow> True | Some sv \<Rightarrow> sv = [] \<or> hs HDR_SERVICE = Some sv)"

definition excluded :: "replay_args \<Rightarrow> headers \<Rightarrow> bool" where
  "excluded args hs \<longleftrightarrow>
     (case hs HDR_ERROR_CLASS of None \<Rightarrow> False | Some k \<Rightarrow> k \<in> set NON_RETRYABLE_ERROR_CLASSES) \<and>
     \<not> a_include_poison args"

text \<open>One matching dead letter; the first component says whether the \<^verbatim>\<open>--limit\<close> check is reached
  (a message with no original topic is passed over by \<^verbatim>\<open>continue\<close>).\<close>

definition handle_letter ::
    "kafka \<Rightarrow> (bytes \<Rightarrow> string) \<Rightarrow> replay_args \<Rightarrow> message \<Rightarrow> headers \<Rightarrow> replay_counts \<Rightarrow>
     ('x client_scheme, bool \<times> replay_counts) comp" where
  "handle_letter K show_key args m hs n =
     thenC (mark (LogLine (describe show_key m hs)))
     (if excluded args hs then ret (True, n\<lparr>n_excluded := n_excluded n + 1\<rparr>)
      else if a_publish args then
        (case hs HDR_ORIGINAL_TOPIC of
           None \<Rightarrow> ret (False, n)
         | Some target \<Rightarrow>
             if target = [] then ret (False, n)
             else thenC (call K (Produce NoCallback target (m_key m) (m_value m) []))
                    (ret (True, n\<lparr>n_published := n_published n + 1\<rparr>)))
      else ret (True, n))"

definition reached_limit :: "replay_args \<Rightarrow> replay_counts \<Rightarrow> bool" where
  "reached_limit args n \<longleftrightarrow> a_limit args \<noteq> 0 \<and> n_matched n \<ge> a_limit args"

fun replay_loop ::
    "kafka \<Rightarrow> (bytes \<Rightarrow> string) \<Rightarrow> replay_args \<Rightarrow> nat \<Rightarrow> (int \<times> int) list \<Rightarrow> replay_counts \<Rightarrow>
     ('x client_scheme, replay_counts) comp" where
  "replay_loop K show_key args fuel pending n =
     (if pending = [] then ret n
      else (case fuel of
        0 \<Rightarrow> raise (OtherError ''OutOfFuel'' '''')
      | Suc k \<Rightarrow>
          bindC (ask K ReaderPoll (k_reader_poll K)) (\<lambda>r.
          case r of
            NoMessage \<Rightarrow> ret n
          | PartitionEOF \<Rightarrow> replay_loop K show_key args k pending n
          | PollError t fatal \<Rightarrow> ret n
          | Polled m \<Rightarrow>
              (case map_of pending (m_partition m) of
                 None \<Rightarrow> replay_loop K show_key args k pending n
               | Some end_offset \<Rightarrow>
                   (let pending' = (if m_offset m + 1 \<ge> end_offset
                          then filter (\<lambda>e. fst e \<noteq> m_partition m) pending else pending);
                        hs = decode_headers m
                    in if \<not> (m_offset m < end_offset) then replay_loop K show_key args k pending' n
                       else if \<not> matches_service args hs
                       then replay_loop K show_key args k pending' (n\<lparr>n_seen := n_seen n + 1\<rparr>)
                       else bindC (handle_letter K show_key args m hs
                                (n\<lparr>n_seen := n_seen n + 1, n_matched := n_matched n + 1\<rparr>)) (\<lambda>(checked, n').
                              if checked \<and> reached_limit args n' then ret n'
                              else replay_loop K show_key args k pending' n'))))))"

declare replay_loop.simps [simp del]

text \<open>\<^verbatim>\<open>remaining\<close> is what the flush of the clean-up returned, the call before the last. \<^verbatim>\<open>assign\<close>
  of several partitions is recorded as one call for each.\<close>

definition replay_all ::
    "kafka \<Rightarrow> (bytes \<Rightarrow> string) \<Rightarrow> nat \<Rightarrow> settings \<Rightarrow> replay_args \<Rightarrow> ('x client_scheme, int) comp" where
  "replay_all K show_key fuel c args =
     bindC (snapshot_topic K (dlq_topic c)) (\<lambda>sn.
     thenC (forC (sn_assignments sn) (\<lambda>(p, low). call K (ReaderAssign (dlq_topic c) p low)))
     (bindC (finallyC (replay_loop K show_key args fuel (sn_end_offsets sn)
                \<lparr>n_seen = 0, n_matched = 0, n_excluded = 0, n_published = 0\<rparr>)
              (thenC (producer_flush K) (call K ReaderClose))) (\<lambda>n.
      bindC (gets (\<lambda>s. k_remaining K (butlast (trace s)))) (\<lambda>remaining.
      ret (if a_publish args \<and> remaining \<noteq> 0 then 1 else 0)))))"

definition main_replay ::
    "kafka \<Rightarrow> (bytes \<Rightarrow> string) \<Rightarrow> nat \<Rightarrow> settings \<Rightarrow> replay_args \<Rightarrow> ('x client_scheme, unit) comp" where
  "main_replay K show_key fuel raw args =
     (case load_settings raw of
        Inl e \<Rightarrow> raise e
      | Inr c \<Rightarrow>
          (case a_service args of
             Some sv \<Rightarrow>
               if sv \<noteq> [] \<and> sv \<notin> {''inventory'', ''notification'', ''analytics''} then hard_exit 2
               else bindC (replay_all K show_key fuel c args) hard_exit
           | None \<Rightarrow> bindC (replay_all K show_key fuel c args) hard_exit))"

section \<open>What a run publishes\<close>

text \<open>A record the tool may produce: a dead letter read off the topic, below the watermark of the
  snapshot, asked for, not excluded, without headers and to its original topic.\<close>

definition replayable :: "kafka \<Rightarrow> replay_args \<Rightarrow> (int \<times> int) list \<Rightarrow> kcall \<Rightarrow> bool" where
  "replayable K args ends k = (case k of
     Produce who target key v hs \<Rightarrow> a_publish args \<and> hs = [] \<and>
       (\<exists>h m e. k_reader_poll K h = Polled m \<and> map_of ends (m_partition m) = Some e \<and> m_offset m < e \<and>
          m_key m = key \<and> m_value m = v \<and> decode_headers m HDR_ORIGINAL_TOPIC = Some target \<and>
          matches_service args (decode_headers m) \<and> \<not> excluded args (decode_headers m))
   | _ \<Rightarrow> \<not> is_commit k)"

lemma keeps_handle_letter:
  assumes "\<And>target. a_publish args \<Longrightarrow> \<not> excluded args hs \<Longrightarrow> hs HDR_ORIGINAL_TOPIC = Some target \<Longrightarrow>
     Q (Produce NoCallback target (m_key m) (m_value m) [])"
  shows "keeps (only Q) (handle_letter K sk args m hs n)"
  unfolding handle_letter_def using assms by (auto intro!: keeps_rules split: option.splits)

text \<open>What follows a question may rely on the answer having come from the client.\<close>

lemma keeps_only_ask_bind:
  assumes "Q k" and "\<And>h. keeps (only Q) (g (f h))"
  shows "keeps (only Q) (bindC (ask K k f) g)"
proof -
  have "bindC (gets (\<lambda>s. f (trace s))) g = (\<lambda>s. g (f (trace s)) s)" by (simp add: fun_eq_iff)
  then have "bindC (ask K k f) g = bindC (call K k) (\<lambda>_ s. g (f (trace s)) s)"
    unfolding ask_def bindC_assoc by simp
  moreover have "keeps (only Q) (\<lambda>s. g (f (trace s)) s)"
    using assms(2) by (simp add: keeps_def)
  ultimately show ?thesis using assms(1) by (auto intro!: keeps_rules)
qed

lemma map_of_drop: "map_of (filter (\<lambda>e. fst e \<noteq> p) xs) = (map_of xs)(p := None)"
  by (induction xs) auto

lemma keeps_replay_loop:
  assumes "map_of pending \<subseteq>\<^sub>m map_of ends"
  shows "keeps (only (replayable K args ends))
    (replay_loop K sk args fuel pending n :: ('x client_scheme, replay_counts) comp)"
  using assms
proof (induction fuel arbitrary: pending n)
  case 0
  then show ?case by (subst replay_loop.simps) (auto intro!: keeps_rules)
next
  case (Suc k)
  have sub: "map_of (if b then filter (\<lambda>e. fst e \<noteq> p) pending else pending) \<subseteq>\<^sub>m map_of ends" for b p
    using Suc.prems by (auto simp: map_le_def map_of_drop)
  note both = Suc.IH [OF Suc.prems] Suc.IH [OF sub [where b = True, simplified]]
  have letter: "keeps (only (replayable K args ends))
      (handle_letter K sk args m (decode_headers m) n' :: ('x client_scheme, bool \<times> replay_counts) comp)"
    if "k_reader_poll K h = Polled m" "map_of pending (m_partition m) = Some e" "m_offset m < e"
      "matches_service args (decode_headers m)" for m h e n'
  proof -
    have "map_of ends (m_partition m) = Some e"
      using Suc.prems that(2) by (auto simp: map_le_def dom_def)
    with that show ?thesis
      by (intro keeps_handle_letter) (auto simp: replayable_def)
  qed
  have poll: "replayable K args ends ReaderPoll" by (simp add: replayable_def)
  show ?case
  proof (subst replay_loop.simps, unfold Let_def nat.case, intro keeps_if keeps_ret only_rules keeps_only_ask_bind poll)
    fix h
    show "keeps (only (replayable K args ends)) (case k_reader_poll K h of
        NoMessage \<Rightarrow> (ret n :: ('x client_scheme, replay_counts) comp) | PartitionEOF \<Rightarrow> replay_loop K sk args k pending n | PollError t fatal \<Rightarrow> ret n
      | Polled m \<Rightarrow> (case map_of pending (m_partition m) of
          None \<Rightarrow> replay_loop K sk args k pending n
        | Some e \<Rightarrow> if \<not> (m_offset m < e) then replay_loop K sk args k
              (if m_offset m + 1 \<ge> e then filter (\<lambda>e. fst e \<noteq> m_partition m) pending else pending) n
            else if \<not> matches_service args (decode_headers m) then replay_loop K sk args k
              (if m_offset m + 1 \<ge> e then filter (\<lambda>e. fst e \<noteq> m_partition m) pending else pending)
              (n\<lparr>n_seen := n_seen n + 1\<rparr>)
            else bindC (handle_letter K sk args m (decode_headers m)
                (n\<lparr>n_seen := n_seen n + 1, n_matched := n_matched n + 1\<rparr>)) (\<lambda>(checked, n').
              if checked \<and> reached_limit args n' then ret n'
              else replay_loop K sk args k
                (if m_offset m + 1 \<ge> e then filter (\<lambda>e. fst e \<noteq> m_partition m) pending else pending) n')))"
    proof (cases "k_reader_poll K h")
      case (Polled m)
      show ?thesis
      proof (cases "map_of pending (m_partition m)")
        case (Some e)
        have bind: "keeps (only (replayable K args ends)) (bindC
            (handle_letter K sk args m (decode_headers m) n' :: ('x client_scheme, bool \<times> replay_counts) comp)
            (\<lambda>(checked, n'). if checked \<and> reached_limit args n' then ret n'
              else replay_loop K sk args k
                (if m_offset m + 1 \<ge> e then filter (\<lambda>e. fst e \<noteq> m_partition m) pending else pending) n'))"
          if "m_offset m < e" "matches_service args (decode_headers m)" for n'
          using letter [OF Polled Some that]
          by (intro keeps_bind only_rules) (auto intro!: keeps_rules both split: prod.splits)
        show ?thesis
          using Some Polled both bind by (cases "m_offset m < e"; cases "matches_service args (decode_headers m)") auto
      qed (use Polled Suc.IH [OF Suc.prems] in simp)
    qed (use Suc.IH [OF Suc.prems] in \<open>auto intro!: keeps_rules\<close>)
  qed
qed

text \<open>Taking the snapshot reads and nothing else.\<close>

fun is_query :: "kcall \<Rightarrow> bool" where
  "is_query (ReaderListTopics _) = True"
| "is_query (ReaderWatermarks _ _) = True"
| "is_query _ = False"

lemma keeps_snapshot_partitions:
  "(\<And>k. is_query k \<Longrightarrow> Q k) \<Longrightarrow> keeps (only Q) (snapshot_partitions K topic ps sn)"
  by (induction ps arbitrary: sn) (auto intro!: keeps_rules split: prod.splits)

lemma keeps_snapshot_topic:
  assumes "\<And>k. is_query k \<Longrightarrow> Q k"
  shows "keeps (only Q) (snapshot_topic K topic)"
  unfolding snapshot_topic_def
  using assms keeps_snapshot_partitions [of Q]
  by (auto intro!: keeps_rules split: option.splits topic_info.splits)

lemma only_suffix:
  assumes "only Q s t" and "x \<in> set (drop (length (trace s)) (trace t))"
  shows "Q (fst x)"
  using assms by (auto simp: only_def list_all_iff)

lemma keeps_replay_all:
  assumes "snapshot_topic K (dlq_topic c) s = (Ok sn, s1)"
  shows "only (replayable K args (sn_end_offsets sn)) s (snd (replay_all K sk fuel c args s))"
proof -
  let ?Q = "replayable K args (sn_end_offsets sn)"
  have q: "is_query k \<Longrightarrow> ?Q k" for k by (cases k) (simp_all add: replayable_def)
  have "only ?Q s s1" by (rule keepsD [OF keeps_snapshot_topic assms]) (rule q)
  moreover have "keeps (only ?Q) (thenC (forC (sn_assignments sn) (\<lambda>(p, low). call K (ReaderAssign (dlq_topic c) p low)))
     (bindC (finallyC (replay_loop K sk args fuel (sn_end_offsets sn)
                \<lparr>n_seen = 0, n_matched = 0, n_excluded = 0, n_published = 0\<rparr>)
              (thenC (producer_flush K) (call K ReaderClose))) (\<lambda>n.
      bindC (gets (\<lambda>s. k_remaining K (butlast (trace s)))) (\<lambda>remaining.
      ret (if a_publish args \<and> remaining \<noteq> 0 then 1 else 0 :: int)))))" (is "keeps _ ?rest")
    by (intro keeps_rules keeps_replay_loop) (auto simp: replayable_def intro!: keeps_rules split: prod.splits)
  then have "only ?Q s1 (snd (?rest s1))" by (auto simp: keeps_def)
  moreover have "snd (replay_all K sk fuel c args s) = snd (?rest s1)"
    unfolding replay_all_def bindC_OkI [of "snapshot_topic K (dlq_topic c)", OF assms] by (rule refl)
  ultimately show ?thesis using only_trans by auto
qed

section \<open>When a run ends\<close>

text \<open>A reader that delivers these messages first, whatever it does afterwards.\<close>

definition delivers_first :: "kafka \<Rightarrow> message list \<Rightarrow> bool" where
  "delivers_first K ms \<longleftrightarrow> (\<forall>h. 1 \<le> polls_in h \<and> polls_in h \<le> length ms \<longrightarrow>
     k_reader_poll K h = Polled (ms ! (polls_in h - 1)))"

definition completes :: "message list \<Rightarrow> (int \<times> int) list \<Rightarrow> bool" where
  "completes ms ends \<longleftrightarrow> (\<forall>(p, e) \<in> set ends. \<exists>m \<in> set ms. m_partition m = p \<and> e \<le> m_offset m + 1)"

lemma handle_letter_run:
  assumes "k_raises K = (\<lambda>_ _. None)"
  shows "\<exists>b n' t. handle_letter K sk args m hs n s = (Ok (b, n'), t) \<and> polls_in (trace t) = polls_in (trace s)"
  using assms by (auto simp: handle_letter_def bindC_def ret_def call_def split: option.splits)

lemma replay_loop_ends:
  assumes K: "k_raises K = (\<lambda>_ _. None)" and "delivers_first K ms"
    and "polls_in (trace s) + fuel = length ms"
    and "completes (drop (polls_in (trace s)) ms) pending" and "distinct (map fst pending)"
  shows "\<exists>n' t. replay_loop K sk args fuel pending n s = (Ok n', t)"
  using assms(3-5)
proof (induction fuel arbitrary: pending n s)
  case 0
  then have "pending = []" by (cases pending) (auto simp: completes_def)
  then show ?case by (simp add: replay_loop.simps ret_def)
next
  case (Suc k)
  let ?i = "polls_in (trace s)" and ?s1 = "s\<lparr>trace := trace s @ [(ReaderPoll, None)]\<rparr>"
  define m where "m = ms ! ?i"
  have poll: "ask K ReaderPoll (k_reader_poll K) s = (Ok (Polled m), ?s1)"
    using assms(2) K Suc.prems(1) by (simp add: ask_def bindC_def call_def gets_def delivers_first_def m_def)
  have drop: "drop ?i ms = m # drop (Suc ?i) ms" using Suc.prems(1) by (simp add: Cons_nth_drop_Suc m_def)
  define fin where "fin = (case map_of pending (m_partition m) of None \<Rightarrow> False | Some e \<Rightarrow> m_offset m + 1 \<ge> e)"
  define pending' where "pending' = (if fin then filter (\<lambda>e. fst e \<noteq> m_partition m) pending else pending)"
  have comp: "completes (drop (Suc ?i) ms) pending'"
    unfolding completes_def
  proof (clarify)
    fix p e
    assume pe: "(p, e) \<in> set pending'"
    then have "(p, e) \<in> set pending" by (auto simp: pending'_def split: if_splits)
    moreover from this have "map_of pending p = Some e" using Suc.prems(3) by simp
    ultimately obtain m' where "m' \<in> set (m # drop (Suc ?i) ms)" "m_partition m' = p" "e \<le> m_offset m' + 1"
      using Suc.prems(2) unfolding completes_def drop by blast
    moreover have "\<not> (m_partition m = p \<and> e \<le> m_offset m + 1)"
      using pe \<open>map_of pending p = Some e\<close> by (auto simp: pending'_def fin_def split: if_splits)
    ultimately show "\<exists>m'\<in>set (drop (Suc ?i) ms). m_partition m' = p \<and> e \<le> m_offset m' + 1" by auto
  qed
  have dist: "distinct (map fst pending')"
    using Suc.prems(3) by (auto simp: pending'_def distinct_map filter_map intro: inj_on_subset)
  have next_step: "\<exists>n' t. replay_loop K sk args k pending' n u = (Ok n', t)"
    if "polls_in (trace u) = Suc ?i" for n and u :: "'a client_scheme"
    using Suc.IH [of u pending' n] that Suc.prems(1) comp dist by simp
  have s1: "polls_in (trace ?s1) = Suc ?i" by simp
  show ?case
  proof (cases "pending = []")
    case True
    then show ?thesis by (simp add: replay_loop.simps ret_def)
  next
    case False
    have unf: "replay_loop K sk args (Suc k) pending n s =
      (case map_of pending (m_partition m) of
         None \<Rightarrow> replay_loop K sk args k pending' n
       | Some e \<Rightarrow>
           if \<not> (m_offset m < e) then replay_loop K sk args k pending' n
           else if \<not> matches_service args (decode_headers m)
           then replay_loop K sk args k pending' (n\<lparr>n_seen := n_seen n + 1\<rparr>)
           else bindC (handle_letter K sk args m (decode_headers m)
                    (n\<lparr>n_seen := n_seen n + 1, n_matched := n_matched n + 1\<rparr>)) (\<lambda>(checked, n').
                  if checked \<and> reached_limit args n' then ret n'
                  else replay_loop K sk args k pending' n')) ?s1"
    proof (cases "map_of pending (m_partition m)")
      case None
      then have "pending' = pending" by (simp add: pending'_def fin_def)
      with None False poll show ?thesis
        by (subst replay_loop.simps) (simp add: bindC_def [of "ask K ReaderPoll (k_reader_poll K)"])
    next
      case (Some e)
      then have "pending' = (if m_offset m + 1 \<ge> e then filter (\<lambda>e. fst e \<noteq> m_partition m) pending else pending)"
        by (simp add: pending'_def fin_def)
      note p' = this [symmetric]
      from Some False poll show ?thesis
        by (subst replay_loop.simps)
          (simp add: bindC_def [of "ask K ReaderPoll (k_reader_poll K)"] Let_def p' del: if_split split del: if_split)
    qed
    obtain b n2 t2 where h: "handle_letter K sk args m (decode_headers m)
        (n\<lparr>n_seen := n_seen n + 1, n_matched := n_matched n + 1\<rparr>) ?s1 = (Ok (b, n2), t2)"
      and t2: "polls_in (trace t2) = Suc ?i"
      using handle_letter_run [OF K, of sk args m "decode_headers m" _ ?s1] s1 by metis
    show ?thesis
      using next_step [OF s1] next_step [OF t2] h unfolding unf
      by (auto simp: bindC_def ret_def split: option.splits)
  qed
qed

lemma snapshot_partitions_ends:
  assumes "snapshot_partitions K topic ps sn s = (Ok sn', t)" and "distinct (map fst (sn_end_offsets sn) @ ps)"
  shows "distinct (map fst (sn_end_offsets sn')) \<and> polls_in (trace t) = polls_in (trace s)"
  using assms
proof (induction ps arbitrary: sn s)
  case Nil
  then show ?case by (simp add: ret_def)
next
  case (Cons p ps)
  let ?s1 = "s\<lparr>trace := trace s @ [(ReaderWatermarks topic p, None)]\<rparr>"
  from Cons.prems(1) have ok: "k_raises K (trace s) (ReaderWatermarks topic p) = None"
    by (auto simp: ask_def bindC_def call_def split: option.splits)
  obtain low high where w: "k_watermarks K (trace ?s1) = (low, high)" by (metis surj_pair)
  define sn1 where "sn1 = (if high \<le> low then sn
    else sn\<lparr>sn_assignments := sn_assignments sn @ [(p, low)], sn_end_offsets := sn_end_offsets sn @ [(p, high)]\<rparr>)"
  have "snapshot_partitions K topic ps sn1 ?s1 = (Ok sn', t)"
    using Cons.prems(1) ok w by (simp add: ask_def bindC_def call_def gets_def sn1_def)
  from Cons.IH [OF this] Cons.prems(2) show ?case by (auto simp: sn1_def split: if_splits)
qed

lemma snapshot_topic_ends:
  assumes "snapshot_topic K topic s = (Ok sn, t)"
  shows "distinct (map fst (sn_end_offsets sn)) \<and> polls_in (trace t) = polls_in (trace s)"
proof -
  from assms obtain ps u where "snapshot_partitions K topic (sort (remdups ps)) \<lparr>sn_assignments = [], sn_end_offsets = []\<rparr> u =
      (Ok sn, t)" and "trace u = trace s @ [(ReaderListTopics topic, None)]"
    by (auto simp: snapshot_topic_def ask_def bindC_def call_def gets_def raise_def
        split: option.splits topic_info.splits)
  with snapshot_partitions_ends [OF this(1)] show ?thesis by simp
qed

lemma assign_run:
  assumes "k_raises K = (\<lambda>_ _. None)"
  shows "\<exists>t. forC ps (\<lambda>(p, low). call K (ReaderAssign topic p low)) s = (Ok (), t) \<and> polls_in (trace t) = polls_in (trace s)"
proof (induction ps arbitrary: s)
  case Nil
  then show ?case by (simp add: ret_def)
next
  case (Cons x ps)
  obtain p low where x: "x = (p, low)" by (cases x)
  let ?s1 = "s\<lparr>trace := trace s @ [(ReaderAssign topic p low, None)]\<rparr>"
  have "forC (x # ps) (\<lambda>(p, low). call K (ReaderAssign topic p low)) s =
      forC ps (\<lambda>(p, low). call K (ReaderAssign topic p low)) ?s1"
    using assms by (simp add: x bindC_def call_def)
  then show ?case using Cons.IH [of ?s1] by simp
qed

section \<open>A replay to run\<close>

definition letter :: "int \<Rightarrow> message" where
  "letter off = \<lparr>m_topic = ''order-lifecycle.dlq'', m_partition = 0, m_offset = off, m_key = Some ''ord-1'',
     m_value = None, m_headers = [(''x-original-topic'', Some ''order-lifecycle''), (''x-service'', Some ''inventory'')],
     m_timestamp = None\<rparr>"

lemma letter_fields [simp]:
  "m_partition (letter off) = 0" "m_offset (letter off) = off" "m_key (letter off) = Some ''ord-1''"
  "m_value (letter off) = None"
  by (simp_all add: letter_def)

definition publish_args :: replay_args where
  "publish_args = \<lparr>a_publish = True, a_service = Some ''inventory'', a_include_poison = False, a_limit = 0\<rparr>"

lemma letter_headers: "decode_headers (letter off) = [''x-original-topic'' \<mapsto> ''order-lifecycle'', ''x-service'' \<mapsto> ''inventory'']"
proof -
  have "is_ascii ''order-lifecycle''" "is_ascii ''inventory''" by (simp_all add: is_ascii_def)
  then show ?thesis by (simp add: decode_headers_def letter_def decode_header_def utf8_decode_ascii)
qed

lemma demo_snapshot:
  "snapshot_topic (script_kafka [letter 0] 1) (dlq_topic default_settings) fresh_process =
     (Ok \<lparr>sn_assignments = [(0, 0)], sn_end_offsets = [(0, 1)]\<rparr>,
      fresh_process\<lparr>trace := [(ReaderListTopics ''order-lifecycle.dlq'', None), (ReaderWatermarks ''order-lifecycle.dlq'' 0, None)]\<rparr>)"
  by (simp add: snapshot_topic_def ask_def bindC_def call_def gets_def script_kafka_def fresh_process_def ret_def
      default_settings_def)

section \<open>Properties\<close>

text \<open>C16. A replay republishes only what it was asked to. Every record a run produces is a dead letter
  it read below the watermark recorded before the run produced anything, of the service asked for,
  not a non-retryable one unless these were included, byte for byte and without headers to the topic
  the letter came from, and only under \<^verbatim>\<open>--publish\<close>. So a run cannot replay its own consequences.\<close>

theorem replay_stays_in_snapshot:
  assumes "snapshot_topic K (dlq_topic c) s = (Ok sn, s1)" and "replay_all K sk fuel c args s = (r, t)"
    and "(Produce who target key v hs, x) \<in> set (drop (length (trace s)) (trace t))"
  shows "a_publish args \<and> hs = [] \<and>
    (\<exists>h m e. k_reader_poll K h = Polled m \<and> map_of (sn_end_offsets sn) (m_partition m) = Some e \<and>
       m_offset m < e \<and> m_key m = key \<and> m_value m = v \<and> decode_headers m HDR_ORIGINAL_TOPIC = Some target \<and>
       matches_service args (decode_headers m) \<and> \<not> excluded args (decode_headers m))"
proof -
  have "only (replayable K args (sn_end_offsets sn)) s t"
    using keeps_replay_all [OF assms(1), of args sk fuel] assms(2) by simp
  from only_suffix [OF this assms(3)] show ?thesis by (simp add: replayable_def)
qed

theorem replay_stays_in_snapshot_witness:
  "\<exists>t x. replay_all (script_kafka [letter 0] 1) id 1 default_settings publish_args fresh_process = (Ok 0, t) \<and>
     (Produce NoCallback ''order-lifecycle'' (Some ''ord-1'') None [], x) \<in> set (trace t) \<and>
     \<not> excluded publish_args (decode_headers (letter 0))"
proof -
  let ?K = "script_kafka [letter 0] 1"
  have ml: "matches_service publish_args (decode_headers (letter 0))" "\<not> excluded publish_args (decode_headers (letter 0))"
    by (simp_all add: matches_service_def excluded_def publish_args_def letter_headers)
  obtain t where t: "replay_all ?K id 1 default_settings publish_args fresh_process = (Ok 0, t)"
    and p: "(Produce NoCallback ''order-lifecycle'' (Some ''ord-1'') None [], None) \<in> set (trace t)"
  proof -
    let ?s2 = "fresh_process\<lparr>trace := [(ReaderListTopics ''order-lifecycle.dlq'', None),
      (ReaderWatermarks ''order-lifecycle.dlq'' 0, None), (ReaderAssign ''order-lifecycle.dlq'' 0 0, None)]\<rparr>"
    have poll: "ask ?K ReaderPoll (k_reader_poll ?K) ?s2 = (Ok (Polled (letter 0)), ?s2\<lparr>trace := trace ?s2 @ [(ReaderPoll, None)]\<rparr>)"
      by (simp add: ask_def bindC_def call_def gets_def script_kafka_def)
    have n1: "reached_limit publish_args n = False" for n by (simp add: reached_limit_def publish_args_def)
    have pa: "a_publish publish_args" by (simp add: publish_args_def)
    let ?n = "\<lparr>n_seen = 0, n_matched = 0, n_excluded = 0, n_published = 0\<rparr>"
    let ?n1 = "\<lparr>n_seen = 1, n_matched = 1, n_excluded = 0, n_published = 0\<rparr>"
    let ?u = "?s2\<lparr>trace := trace ?s2 @ [(ReaderPoll, None), (Produce NoCallback ''order-lifecycle'' (Some ''ord-1'') None [], None)],
      markers := [LogLine (describe id (letter 0) (decode_headers (letter 0)))]\<rparr>"
    have hl: "handle_letter ?K id publish_args (letter 0) (decode_headers (letter 0)) ?n1
        (?s2\<lparr>trace := trace ?s2 @ [(ReaderPoll, None)]\<rparr>) = (Ok (True, ?n1\<lparr>n_published := 1\<rparr>), ?u)"
      using ml(2) pa
      by (simp add: handle_letter_def bindC_def ret_def letter_headers call_def script_kafka_def fresh_process_def)
    have "replay_loop ?K id publish_args 1 [(0, 1)] ?n ?s2 = bindC (handle_letter ?K id publish_args (letter 0)
        (decode_headers (letter 0)) ?n1) (\<lambda>(checked, n'). if checked \<and> reached_limit publish_args n' then ret n'
          else replay_loop ?K id publish_args 0 [] n') (?s2\<lparr>trace := trace ?s2 @ [(ReaderPoll, None)]\<rparr>)"
      using poll ml(1) unfolding One_nat_def
      by (subst replay_loop.simps)
        (simp add: bindC_def [of "ask ?K ReaderPoll (k_reader_poll ?K)"] Let_def)
    also have "\<dots> = (Ok (?n1\<lparr>n_published := 1\<rparr>), ?u)"
      unfolding bindC_OkI [of "handle_letter ?K id publish_args (letter 0) (decode_headers (letter 0)) ?n1", OF hl]
      by (simp add: n1 replay_loop.simps ret_def)
    finally have loop: "replay_loop ?K id publish_args 1 [(0, 1)] ?n ?s2 = (Ok (?n1\<lparr>n_published := 1\<rparr>), ?u)" .
    have "\<exists>t. replay_all ?K id 1 default_settings publish_args fresh_process = (Ok 0, t) \<and>
        (Produce NoCallback ''order-lifecycle'' (Some ''ord-1'') None [], None) \<in> set (trace t)"
      unfolding replay_all_def bindC_OkI [of "snapshot_topic ?K (dlq_topic default_settings)", OF demo_snapshot]
      using loop
      by (simp add: bindC_def finallyC_def gets_def ret_def call_def script_kafka_def producer_flush_def ask_def
          serve_reports_def modify_def default_settings_def)
    then show ?thesis using that by blast
  qed
  from replay_stays_in_snapshot [OF demo_snapshot t, of NoCallback "''order-lifecycle''" "Some ''ord-1''" None "[]" None] p t ml
  show ?thesis by (auto simp: fresh_process_def)
qed

text \<open>C36. A run ends. Once the reader has delivered, in whatever interleaving, messages that bring every
  partition of the snapshot to its recorded end, the run returns, however many records are appended
  to the topic meanwhile; one poll per delivered message is enough.\<close>

theorem replay_ends:
  assumes "k_raises K = (\<lambda>_ _. None)" and "snapshot_topic K (dlq_topic c) s = (Ok sn, s1)"
    and "polls_in (trace s) = 0" and "delivers_first K ms" and "completes ms (sn_end_offsets sn)"
  shows "\<exists>code t. replay_all K sk (length ms) c args s = (Ok code, t) \<and> code \<in> {0, 1}"
proof -
  note sn = snapshot_topic_ends [OF assms(2)]
  obtain s2 where s2: "forC (sn_assignments sn) (\<lambda>(p, low). call K (ReaderAssign (dlq_topic c) p low)) s1 = (Ok (), s2)"
    and p2: "polls_in (trace s2) = 0"
    using assign_run [OF assms(1), of "sn_assignments sn" "dlq_topic c" s1] sn assms(3) by auto
  have "\<exists>n t. replay_loop K sk args (length ms) (sn_end_offsets sn)
      \<lparr>n_seen = 0, n_matched = 0, n_excluded = 0, n_published = 0\<rparr> s2 = (Ok n, t)"
    by (rule replay_loop_ends [OF assms(1,4)]) (use p2 sn assms(5) in simp_all)
  then obtain n s3 where s3: "replay_loop K sk args (length ms) (sn_end_offsets sn)
      \<lparr>n_seen = 0, n_matched = 0, n_excluded = 0, n_published = 0\<rparr> s2 = (Ok n, s3)" by (elim exE)
  have fl: "\<exists>x u. producer_flush K s3 = (Ok x, u)"
    by (rule producer_flush_run [of K s3]) (use assms(1) in auto)
  then obtain x u where "producer_flush K s3 = (Ok x, u)" by blast
  then show ?thesis
    using assms(1) s2 s3 unfolding replay_all_def bindC_OkI [of "snapshot_topic K (dlq_topic c)", OF assms(2)]
    by (auto simp: bindC_def finallyC_def gets_def ret_def call_def)
qed

theorem replay_ends_witness:
  "\<exists>code t. replay_all (script_kafka [letter 0] 1) id 1 default_settings publish_args fresh_process = (Ok code, t)
     \<and> code \<in> {0, 1}"
proof -
  have d: "delivers_first (script_kafka [letter 0] 1) [letter 0]" by (simp add: delivers_first_def script_kafka_def)
  have c: "completes [letter 0] [(0, 1)]" by (simp add: completes_def letter_def)
  from replay_ends [OF _ demo_snapshot _ d] c show ?thesis
    by (simp add: script_kafka_def fresh_process_def)
qed

end
