(* ===== verification/Retry_Worker.thy ===== *)
theory Retry_Worker
  imports Services Datetimes
begin

text \<open>
  \<^verbatim>\<open>src/order_service/consumer/retry_worker.py\<close>: the process that waits out the backoff of failed
  messages and puts them back on the topic they came from. Its state is the dictionary of paused
  partitions (\<open>deferred\<close>); the services it knows are the names of the registry. As in \<open>Runtime\<close>, polls
  and rebalance callbacks are a list of inputs.
\<close>

section \<open>The worker\<close>

record worker_state = client +
  deferred :: "(topic_partition \<times> datetime) list"

record retry_worker =
  rw_kafka :: kafka
  rw_settings :: settings
  rw_services :: "string list"
  rw_pydantic :: pydantic
  rw_fresh :: string

definition RETRY_WORKER_GROUP :: string where
  "RETRY_WORKER_GROUP = ''retry-worker''"

text \<open>\<^verbatim>\<open>except KafkaException: log\<close>.\<close>

definition tolerate :: "('s, unit) comp \<Rightarrow> (string \<Rightarrow> ('s, unit) comp) \<Rightarrow> ('s, unit) comp" where
  "tolerate body report =
     tryC body (\<lambda>e. case e of KafkaException _ t \<Rightarrow> report t | _ \<Rightarrow> raise e)"

definition drop_key :: "topic_partition \<Rightarrow> (topic_partition \<times> datetime) list \<Rightarrow> (topic_partition \<times> datetime) list" where
  "drop_key k d = filter (\<lambda>e. fst e \<noteq> k) d"

definition worker_resume_due :: "retry_worker \<Rightarrow> ('x worker_state_scheme, unit) comp" where
  "worker_resume_due W =
     bindC (gets (\<lambda>s. (k_now (rw_kafka W) (trace s), deferred s))) (\<lambda>(now, items).
     forC items (\<lambda>((topic, p), due).
       if due > now then ret ()
       else thenC (modify (\<lambda>s. s\<lparr>deferred := drop_key (topic, p) (deferred s)\<rparr>))
         (tolerate (call (rw_kafka W) (ResumePartition topic p)) (\<lambda>_. ret ()))))"

definition worker_defer :: "retry_worker \<Rightarrow> message \<Rightarrow> datetime \<Rightarrow> ('x worker_state_scheme, unit) comp" where
  "worker_defer W m due =
     tolerate
       (thenC (call (rw_kafka W) (PausePartition (m_topic m) (m_partition m)))
       (thenC (call (rw_kafka W) (Seek (m_topic m) (m_partition m) (m_offset m)))
       (thenC (modify (\<lambda>s. s\<lparr>deferred := dict_set (deferred s) (m_topic m, m_partition m) due\<rparr>))
       (mark (LogLine (''RETRY_WAITING key='' @ key_of m @ '' partition='' @ py_str (m_partition m) @
          '' offset='' @ py_str (m_offset m) @ '' due='' @ isoformat due))))))
       (\<lambda>_. ret ())"

definition worker_on_revoke :: "topic_partition list \<Rightarrow> ('x worker_state_scheme, unit) comp" where
  "worker_on_revoke tps = forC tps (\<lambda>tp. modify (\<lambda>s. s\<lparr>deferred := drop_key tp (deferred s)\<rparr>))"

definition worker_commit :: "retry_worker \<Rightarrow> message \<Rightarrow> ('x worker_state_scheme, unit) comp" where
  "worker_commit W m =
     tolerate (call (rw_kafka W) (CommitOffset (m_topic m) (m_partition m) (m_offset m + 1)))
       (\<lambda>_. mark (COMMIT_REJECTED (m_partition m) (m_offset m)))"

definition worker_rewind :: "retry_worker \<Rightarrow> message \<Rightarrow> ('x worker_state_scheme, unit) comp" where
  "worker_rewind W m =
     thenC (mark (FAILURE_PUBLISH_FAILED (key_of m)))
       (tolerate (call (rw_kafka W) (Seek (m_topic m) (m_partition m) (m_offset m))) (\<lambda>_. ret ()))"

definition give_up ::
    "retry_worker \<Rightarrow> message \<Rightarrow> origin \<Rightarrow> string \<Rightarrow> int \<Rightarrow> exn \<Rightarrow> ('x worker_state_scheme, unit) comp" where
  "give_up W m og service attempt exc =
     thenC (mark (POISON_MESSAGE (key_of m)))
     (bindC (tryC
        (thenC (to_dead_letter (rw_kafka W) (rw_settings W) m og service
                  (group_id_for (rw_settings W) service) attempt exc) (ret True))
        (\<lambda>e. case e of FailurePublishFailed _ \<Rightarrow> thenC (worker_rewind W m) (ret False) | _ \<Rightarrow> raise e))
      (\<lambda>published. if published
         then thenC (mark (DLQ_PUBLISHED (key_of m))) (worker_commit W m)
         else ret ()))"

definition release ::
    "retry_worker \<Rightarrow> message \<Rightarrow> string \<Rightarrow> lifecycle_event \<Rightarrow> origin \<Rightarrow> int \<Rightarrow>
     ('x worker_state_scheme, unit) comp" where
  "release W m service event og attempt =
     bindC (tryC
        (thenC (to_source (rw_kafka W) (rw_settings W) m og service
                  (group_id_for (rw_settings W) service) attempt) (ret True))
        (\<lambda>e. case e of
           FailurePublishFailed t \<Rightarrow>
             thenC (mark (LogLine (''RETRY_RELEASE_FAILED service='' @ service @ '' order_id='' @
               ev_order_id event @ '' attempt='' @ py_str attempt @ '' reason='' @ t))) (ret False)
         | _ \<Rightarrow> raise e))
      (\<lambda>released. if released
         then thenC (mark (RETRY_RELEASED (ev_order_id event) attempt)) (worker_commit W m)
         else ret ())"

definition worker_int_header :: "headers \<Rightarrow> string \<Rightarrow> int \<Rightarrow> int" where
  "worker_int_header hs name def =
     (case hs name of None \<Rightarrow> def | Some v \<Rightarrow> (case py_int v of None \<Rightarrow> def | Some n \<Rightarrow> n))"

definition time_header :: "headers \<Rightarrow> string \<Rightarrow> parsed_datetime option" where
  "time_header hs name = (case hs name of None \<Rightarrow> None | Some v \<Rightarrow> fromisoformat v)"

text \<open>\<^verbatim>\<open>due_at is not None and due_at > utc_now()\<close>: comparing a naive datetime raises.\<close>

definition not_yet_due :: "parsed_datetime option \<Rightarrow> datetime \<Rightarrow> exn + datetime option" where
  "not_yet_due due now =
     (case due of
        None \<Rightarrow> Inr None
      | Some (Naive _) \<Rightarrow> Inl (OtherError ''TypeError'' (''can'' @ apostrophe @
          ''t compare offset-naive and offset-aware datetimes''))
      | Some (Aware d) \<Rightarrow> Inr (if d > now then Some d else None))"

text \<open>\<^verbatim>\<open>repr\<close> of a header value, for text without quotes, backslashes or control characters.\<close>

definition quoted :: "string \<Rightarrow> string" where
  "quoted v = apostrophe @ v @ apostrophe"

definition worker_handle_message :: "retry_worker \<Rightarrow> message \<Rightarrow> ('x worker_state_scheme, unit) comp" where
  "worker_handle_message W m =
     (let hs = decode_headers m in
      case origin_from_headers hs m of
        Inl e \<Rightarrow> raise e
      | Inr og \<Rightarrow>
          (let attempt = worker_int_header hs HDR_ATTEMPT 2;
               service = (case hs HDR_SERVICE of None \<Rightarrow> [] | Some v \<Rightarrow> v)
           in bindC (gets (\<lambda>s. k_now (rw_kafka W) (trace s))) (\<lambda>now.
              case not_yet_due (time_header hs HDR_RETRY_AT) now of
                Inl e \<Rightarrow> raise e
              | Inr (Some due) \<Rightarrow> worker_defer W m due
              | Inr None \<Rightarrow>
                  if service \<notin> set (rw_services W) then
                    give_up W m og (if service = [] then ''<unset>'' else service) attempt
                      (NonRetryableError (''x-service header '' @ quoted service @
                        '' names no registered service (known: analytics, inventory, notification)''))
                  else (case (case m_value m of None \<Rightarrow> None
                              | Some raw \<Rightarrow> json_loads raw \<bind> lifecycle_event_of (rw_pydantic W) (rw_fresh W) now) of
                      None \<Rightarrow> give_up W m og service attempt (NonRetryableError ''undecodable message'')
                    | Some event \<Rightarrow> release W m service event og attempt))))"

section \<open>The loop and the entry point\<close>

fun worker_handle_error :: "polled \<Rightarrow> ('s, unit) comp" where
  "worker_handle_error (PollError t fatal) = (if fatal then raise (KafkaException 0 t) else ret ())"
| "worker_handle_error _ = ret ()"

fun worker_step :: "retry_worker \<Rightarrow> input \<Rightarrow> ('x worker_state_scheme, unit) comp" where
  "worker_step W (Poll NoMessage) = worker_resume_due W"
| "worker_step W (Poll PartitionEOF) = thenC (worker_resume_due W) (worker_handle_error PartitionEOF)"
| "worker_step W (Poll (PollError t fatal)) = thenC (worker_resume_due W) (worker_handle_error (PollError t fatal))"
| "worker_step W (Poll (Polled m)) = thenC (worker_resume_due W) (worker_handle_message W m)"
| "worker_step W (Assigned tps) = ret ()"
| "worker_step W (Revoked tps) = worker_on_revoke tps"
| "worker_step W (Lost tps) = worker_on_revoke tps"

definition worker_run :: "retry_worker \<Rightarrow> input list \<Rightarrow> ('x worker_state_scheme, unit) comp" where
  "worker_run W inputs =
     thenC (call (rw_kafka W) (Subscribe [retry_topic (rw_settings W)]))
       (finallyC (forC inputs (worker_step W)) (call (rw_kafka W) CloseConsumer))"

definition main_worker ::
    "kafka \<Rightarrow> string \<Rightarrow> pydantic \<Rightarrow> string \<Rightarrow> settings \<Rightarrow> input list \<Rightarrow> ('x worker_state_scheme, unit) comp" where
  "main_worker K host P fresh raw inputs =
     (case load_settings raw of
        Inl e \<Rightarrow> raise e
      | Inr c \<Rightarrow>
          (case build_consumer_config c (str_or (consumer_group_id c) RETRY_WORKER_GROUP)
              (''retry-worker-'' @ instance_label host c) of
             Inl e \<Rightarrow> (case e of ConsumerConfigError _ \<Rightarrow> hard_exit 2 | _ \<Rightarrow> raise e)
           | Inr config \<Rightarrow>
               thenC (modify (\<lambda>s. s\<lparr>deferred := []\<rparr>))
               (bindC (finallyC
                  (tryC (thenC (worker_run \<lparr>rw_kafka = K, rw_settings = c,
                            rw_services = [''inventory'', ''notification'', ''analytics''],
                            rw_pydantic = P, rw_fresh = fresh\<rparr> inputs) (ret None))
                     (\<lambda>e. case e of KafkaException _ _ \<Rightarrow> ret (Some 1) | _ \<Rightarrow> raise e))
                  (thenC (producer_flush K) (ret ()))) (\<lambda>code.
                case code of None \<Rightarrow> ret () | Some n \<Rightarrow> hard_exit n))))"

section \<open>What a scheduled retry says\<close>

definition retry_headers ::
    "origin \<Rightarrow> string \<Rightarrow> string \<Rightarrow> int \<Rightarrow> datetime \<Rightarrow> datetime \<Rightarrow> exn \<Rightarrow> (string \<times> string) list" where
  "retry_headers og sv g a due now e =
     provenance og sv g @
     [(HDR_ATTEMPT, py_str a), (HDR_RETRY_AT, isoformat due), (HDR_ERROR_CLASS, fst (describe_error e)),
      (HDR_ERROR_MESSAGE, snd (describe_error e)), (HDR_FAILED_AT, isoformat now)]"

text \<open>A message with these headers, as its reader gets it; the values are text.\<close>

definition arrived :: "(string \<times> string) list \<Rightarrow> message \<Rightarrow> bool" where
  "arrived hs m \<longleftrightarrow> m_headers m = published_headers hs \<and> list_all (\<lambda>(n, v). utf8_valid v) hs"

lemma arrived_headers:
  assumes "arrived hs m" and "distinct (map fst hs)"
  shows "decode_headers m = map_of hs"
  using assms decode_published [of hs Map.empty] by (simp add: arrived_def decode_headers_def)

lemma router_publish_record:
  assumes "router_publish K c topic m hdrs s = (Ok (), t)"
  shows "\<exists>l. trace t = trace s @ (Produce ByRouter topic (m_key m) (m_value m) hdrs, None) # l"
proof -
  let ?p = "Produce ByRouter topic (m_key m) (m_value m) hdrs"
  define rest :: "('a client_scheme, unit) comp" where "rest = (if exactly_once c then ret ()
      else bindC (producer_flush K) (\<lambda>(remaining, reports).
        case map_of reports (length (trace s)) of
          None \<Rightarrow> raise (FailurePublishFailed (''no delivery report from '' @ topic))
        | Some d \<Rightarrow>
            if remaining \<noteq> 0
            then raise (FailurePublishFailed (''no delivery report from '' @ topic))
            else (case d of
                    Inl err \<Rightarrow> raise (FailurePublishFailed (topic @ '' rejected the message: '' @ err))
                  | Inr _ \<Rightarrow> ret ())))"
  have kr: "keeps extends rest"
    unfolding rest_def by (intro keeps_rules) (auto intro!: keeps_rules split: option.splits sum.splits)
  have run: "router_publish K c topic m hdrs s = thenC (tryC (call K ?p)
      (\<lambda>e. case e of
         BufferError t \<Rightarrow> raise (FailurePublishFailed (''could not enqueue for '' @ topic @ '': '' @ t))
       | KafkaException n t \<Rightarrow> raise (FailurePublishFailed (''could not enqueue for '' @ topic @ '': '' @ t))
       | _ \<Rightarrow> raise e)) rest s"
    unfolding router_publish_def rest_def bindC_gets by (rule refl)
  show ?thesis
  proof (cases rule: call_cases [of K s ?p])
    case returned
    then have "rest (s\<lparr>trace := trace s @ [(?p, None)]\<rparr>) = (Ok (), t)"
      using assms unfolding run by (simp add: bindC_def tryC_def)
    then have "extends (s\<lparr>trace := trace s @ [(?p, None)]\<rparr>) t" by (rule keepsD [OF kr])
    then show ?thesis by (auto simp: extends_def prefix_def)
  next
    case (raised e)
    then have "\<exists>e' u. router_publish K c topic m hdrs s = (Raise e', u)"
      unfolding run by (cases e) (simp_all add: bindC_def tryC_def raise_def)
    with assms show ?thesis by auto
  qed
qed

lemma to_retry_record:
  assumes "to_retry K c m og sv g a e s = (Ok due, t)"
  shows "in_range due \<and> (\<exists>now l. trace t = trace s @
    (Produce ByRouter (retry_topic c) (m_key m) (m_value m) (retry_headers og sv g a due now e), None) # l)"
proof -
  from assms obtain now where "in_range due"
    and "router_publish K c (retry_topic c) m (retry_headers og sv g a due now e) s = (Ok (), t)"
    by (auto simp: to_retry_def Let_def retry_headers_def raise_def ret_def gets_def
        elim!: bindC_OkE split: option.splits if_splits)
  with router_publish_record show ?thesis by blast
qed

text \<open>What the worker reads off an arrived retry.\<close>

lemma arrived_retry:
  assumes "arrived (retry_headers og sv g a due now e) m" and "in_range due"
  shows "origin_from_headers (decode_headers m) m = Inr og"
    and "worker_int_header (decode_headers m) HDR_ATTEMPT 2 = a"
    and "decode_headers m HDR_SERVICE = Some sv"
    and "time_header (decode_headers m) HDR_RETRY_AT = Some (Aware due)"
proof -
  have d: "decode_headers m = map_of (retry_headers og sv g a due now e)"
    by (rule arrived_headers [OF assms(1)]) (simp add: retry_headers_def provenance_def)
  show "origin_from_headers (decode_headers m) m = Inr og"
    by (simp add: d retry_headers_def provenance_def origin_from_headers_def int_header_def)
  show "worker_int_header (decode_headers m) HDR_ATTEMPT 2 = a"
    by (simp add: d retry_headers_def provenance_def worker_int_header_def)
  show "decode_headers m HDR_SERVICE = Some sv"
    by (simp add: d retry_headers_def provenance_def)
  show "time_header (decode_headers m) HDR_RETRY_AT = Some (Aware due)"
    using assms(2) by (simp add: d retry_headers_def provenance_def time_header_def fromisoformat_isoformat)
qed

text \<open>An arrived retry is deferred before it is due and released afterwards.\<close>

lemma worker_on_retry:
  assumes "arrived (retry_headers og sv g a due now e) m" and "in_range due"
    and "sv \<in> set (rw_services W)"
    and "m_value m = Some (json_dumps (dump_lifecycle_event (rw_pydantic W) ev))"
    and "pydantic_ok (rw_pydantic W)" and "valid_event (rw_pydantic W) ev"
  shows "worker_handle_message W m s =
    (if k_now (rw_kafka W) (trace s) < due then worker_defer W m due s else release W m sv ev og a s)"
  using arrived_retry [OF assms(1,2)] assms(3-6)
  by (simp add: worker_handle_message_def Let_def not_yet_due_def lifecycle_event_of_dump)

end
