(* ===== verification/Retry_Path.thy ===== *)
theory Retry_Path
  imports Retry_Worker
begin

text \<open>
  The path of a failed message across two processes: the consumer that fails it and schedules a retry
  (\<open>Runtime\<close>), the worker that waits and puts it back (\<open>Retry_Worker\<close>), the consumer that reads it
  again. The headers are the only thing carried between them; the theorems say that the due time, the
  attempt count, the addressee and the origin survive the trip, that the number of trips is bounded
  by \<^verbatim>\<open>RETRY_MAX_ATTEMPTS\<close>, and where the path leaks.
\<close>

section \<open>The worker's calls\<close>

lemma keeps_only_tolerate [keeps_rules]:
  "keeps (only Q) body \<Longrightarrow> (\<And>t. keeps (only Q) (report t)) \<Longrightarrow> keeps (only Q) (tolerate body report)"
  unfolding tolerate_def by (intro keeps_rules) (auto intro!: keeps_rules split: exn.splits)

text \<open>Whatever the worker publishes goes to the dead-letter topic or carries on the attempt it read.\<close>

lemma keeps_worker:
  assumes "Q ProducerFlush" and "\<And>t p. Q (PausePartition t p)" and "\<And>t p off. Q (Seek t p off)"
    and "\<And>t p off. Q (CommitOffset t p off)"
    and "\<And>hs. Q (Produce ByRouter (dlq_topic (rw_settings W)) (m_key m) (m_value m) hs)"
    and src: "\<And>topic hs. distinct (map fst hs) \<Longrightarrow>
      map_of hs HDR_ATTEMPT = Some (py_str (worker_int_header (decode_headers m) HDR_ATTEMPT 2)) \<Longrightarrow>
      Q (Produce ByRouter topic (m_key m) (m_value m) hs)"
  shows "keeps (only Q) (worker_handle_message W m)"
proof -
  let ?a = "worker_int_header (decode_headers m) HDR_ATTEMPT 2"
  have c: "keeps (only Q) (worker_commit W m)"
    unfolding worker_commit_def by (intro keeps_rules assms)
  have r: "keeps (only Q) (release W m sv ev og ?a)" for sv ev og
    unfolding release_def
    by (intro keeps_rules keeps_only_source src c assms) (auto intro!: keeps_rules c split: exn.splits)
  have g: "keeps (only Q) (give_up W m og sv a e)" for og sv a e
    unfolding give_up_def worker_rewind_def
    by (intro keeps_rules keeps_only_dead_letter assms) (auto intro!: keeps_rules c assms split: exn.splits)
  have d: "keeps (only Q) (worker_defer W m due)" for due
    unfolding worker_defer_def by (intro keeps_rules assms keeps_only_modify_frame) simp_all
  show ?thesis
    unfolding worker_handle_message_def Let_def
    by (auto intro!: keeps_rules r g d split: sum.splits option.splits)
qed

section \<open>One trip\<close>

text \<open>\<open>m'\<close> is \<open>m\<close> as it comes back after a failed attempt: the consumer put a record on the retry topic
  while handling \<open>m\<close>, the worker got it as \<open>m1\<close>, and \<open>m'\<close> is what arrives of a record the worker
  published for it, other than a dead letter.\<close>

definition put_back :: "('d, 'x) process_scheme consumer \<Rightarrow> retry_worker \<Rightarrow> message \<Rightarrow> message \<Rightarrow> bool" where
  "put_back C W m m' \<longleftrightarrow> (\<exists>s t r l hs m1 w u r1 l1 topic hs1.
     handle_message C m s = (r, t) \<and> trace t = trace s @ l \<and>
     (Produce ByRouter (retry_topic (cn_settings C)) (m_key m) (m_value m) hs, None) \<in> set l \<and> arrived hs m1 \<and>
     worker_handle_message W m1 (w :: worker_state) = (r1, u) \<and> trace u = trace w @ l1 \<and>
     (Produce ByRouter topic (m_key m1) (m_value m1) hs1, None) \<in> set l1 \<and>
     topic \<noteq> dlq_topic (rw_settings W) \<and> arrived hs1 m')"

abbreviation attempt_number :: "message \<Rightarrow> int" where
  "attempt_number m \<equiv> attempt_of (decode_headers m)"

lemma attempt_of_pos: "1 \<le> attempt_of hs"
  by (simp add: attempt_of_def split: option.splits)

lemma only_member:
  assumes "only Q s t" and "trace t = trace s @ l" and "(k, x) \<in> set l"
  shows "Q k"
  using assms by (force simp: only_def list_all_iff)

lemma arrived_attempt:
  assumes "arrived hs m" and "distinct (map fst hs)" and "map_of hs HDR_ATTEMPT = Some (py_str a)"
  shows "attempt_number m = max 1 a" and "worker_int_header (decode_headers m) HDR_ATTEMPT 2 = a"
  using assms by (simp_all add: arrived_headers attempt_of_def worker_int_header_def)

text \<open>What a consumer publishes through its router for a message of attempt \<open>n\<close>: dead letters, and,
  while the budget lasts, records of attempt \<open>n + 1\<close>.\<close>

definition budgeted :: "settings \<Rightarrow> int \<Rightarrow> kcall \<Rightarrow> bool" where
  "budgeted c n k = (case k of
      Produce ByRouter topic key v hs \<Rightarrow> topic = dlq_topic c \<or>
        (n < retry_max_attempts c \<and> distinct (map fst hs) \<and> map_of hs HDR_ATTEMPT = Some (py_str (n + 1)))
    | _ \<Rightarrow> True)"

lemma budgeted_note: "keeps (only (budgeted c n)) (cs_note (cn_commits (service_process K E fuel host P fresh c spec)) m)"
  by (auto simp: service_process_def direct_ops_def tx_ops_def budgeted_def
      intro!: keeps_only_direct_note keeps_only_tx_note)

lemmas budgeted_calls = budgeted_note keeps_only_of_trace_eq inventory_trace notification_trace analytics_trace

interpretation inventory_calls: contained_consumer "budgeted c (attempt_number m)"
  "service_process K E fuel host P fresh c (inventory_service P)" K E fuel m "attempt_number m"
  for K E fuel host P fresh c m
  by unfold_locales (auto simp: store_calls_def budgeted_def [abs_def] intro: budgeted_calls [unfolded budgeted_def [abs_def]])

interpretation notification_calls: contained_consumer "budgeted c (attempt_number m)"
  "service_process K E fuel host P fresh c (notification_service P)" K E fuel m "attempt_number m"
  for K E fuel host P fresh c m
  by unfold_locales (auto simp: store_calls_def budgeted_def [abs_def] intro: budgeted_calls [unfolded budgeted_def [abs_def]])

interpretation analytics_calls: contained_consumer "budgeted c (attempt_number m)"
  "service_process K E fuel host P fresh c analytics_service" K E fuel m "attempt_number m"
  for K E fuel host P fresh c m
  by unfold_locales (auto simp: store_calls_def budgeted_def [abs_def] intro: budgeted_calls [unfolded budgeted_def [abs_def]])

lemma keeps_budgeted:
  assumes "build_spec P name = Inr spec"
  shows "keeps (only (budgeted c (attempt_number m))) (handle_message (service_process K E fuel host P fresh c spec) m)"
  by (rule build_spec_cases [OF assms])
    (auto intro: inventory_calls.keeps_handle_message notification_calls.keeps_handle_message
      analytics_calls.keeps_handle_message)

lemma worker_record:
  assumes run: "worker_handle_message W m s = (r, t)" and l: "trace t = trace s @ l"
    and rec: "(Produce ByRouter topic (m_key m) (m_value m) hs, None) \<in> set l"
    and "topic \<noteq> dlq_topic (rw_settings W)"
  shows "distinct (map fst hs) \<and>
    map_of hs HDR_ATTEMPT = Some (py_str (worker_int_header (decode_headers m) HDR_ATTEMPT 2))"
proof -
  define Q where "Q k = (case k of
      Produce who topic key v hs \<Rightarrow> topic \<noteq> dlq_topic (rw_settings W) \<longrightarrow> distinct (map fst hs) \<and>
        map_of hs HDR_ATTEMPT = Some (py_str (worker_int_header (decode_headers m) HDR_ATTEMPT 2))
    | _ \<Rightarrow> True)" for k
  have "keeps (only Q) (worker_handle_message W m)" by (rule keeps_worker) (simp_all add: Q_def)
  then have "only Q s t" using run by (rule keepsD)
  from only_member [OF this l rec] assms(4) show ?thesis by (simp add: Q_def)
qed

lemma put_back_step:
  assumes spec: "build_spec P name = Inr spec" and ne: "retry_topic c \<noteq> dlq_topic c"
    and "put_back (service_process K E fuel host P fresh c spec) W m m'"
  shows "attempt_number m < retry_max_attempts c \<and> attempt_number m' = attempt_number m + 1"
proof -
  let ?C = "service_process K E fuel host P fresh c spec"
  from assms(3) obtain s t r l hs m1 and w :: worker_state and u r1 l1 topic hs1 where
    c: "handle_message ?C m s = (r, t)" "trace t = trace s @ l"
      "(Produce ByRouter (retry_topic c) (m_key m) (m_value m) hs, None) \<in> set l" "arrived hs m1"
    and w: "worker_handle_message W m1 w = (r1, u)" "trace u = trace w @ l1"
      "(Produce ByRouter topic (m_key m1) (m_value m1) hs1, None) \<in> set l1"
      "topic \<noteq> dlq_topic (rw_settings W)" "arrived hs1 m'"
    unfolding put_back_def service_process_simps by blast
  have "only (budgeted c (attempt_number m)) s t" by (rule keepsD [OF keeps_budgeted [OF spec] c(1)])
  from only_member [OF this c(2,3)] ne
  have c': "attempt_number m < retry_max_attempts c" "distinct (map fst hs)"
      "map_of hs HDR_ATTEMPT = Some (py_str (attempt_number m + 1))"
    by (auto simp: budgeted_def)
  note w' = worker_record [OF w(1-4)]
  have "worker_int_header (decode_headers m1) HDR_ATTEMPT 2 = attempt_number m + 1"
    by (rule arrived_attempt(2) [OF c(4) c'(2,3)])
  then have "attempt_number m' = max 1 (attempt_number m + 1)"
    using arrived_attempt(1) [OF w(5)] w' by simp
  with c'(1) attempt_of_pos [of "decode_headers m"] show ?thesis by simp
qed

section \<open>A release, call by call\<close>

definition source_headers :: "origin \<Rightarrow> string \<Rightarrow> string \<Rightarrow> int \<Rightarrow> (string \<times> string) list" where
  "source_headers og sv g a =
     provenance og sv g @ [(HDR_ATTEMPT, py_str a), (HDR_RETRY_TARGET, sv)]"

lemma arrived_source:
  assumes "arrived (source_headers og sv g a) b"
  shows "attempt_number b = max 1 a" "decode_headers b HDR_RETRY_TARGET = Some sv"
    "origin_from_headers (decode_headers b) b = Inr og"
proof -
  have d: "decode_headers b = map_of (source_headers og sv g a)"
    by (rule arrived_headers [OF assms]) (simp add: source_headers_def provenance_def)
  show "attempt_number b = max 1 a" "decode_headers b HDR_RETRY_TARGET = Some sv"
    "origin_from_headers (decode_headers b) b = Inr og"
    by (simp_all add: d source_headers_def provenance_def attempt_of_def origin_from_headers_def int_header_def)
qed

lemma release_run:
  assumes K: "kafka_ok (rw_kafka W)" and alo: "\<not> exactly_once (rw_settings W)"
    and run: "release W m sv ev og a s = (r, t)"
  defines "p \<equiv> Produce ByRouter (og_topic og) (m_key m) (m_value m)
      (source_headers og sv (group_id_for (rw_settings W) sv) a)"
  shows "(\<exists>x. trace t = trace s @ [(p, None), (ProducerFlush, None),
            (CommitOffset (m_topic m) (m_partition m) (m_offset m + 1), x)]) \<or>
         (r = Ok () \<and> (\<exists>e. trace t = trace s @ [(p, Some e)] \<or> trace t = trace s @ [(p, None), (ProducerFlush, None)]))"
proof -
  let ?K = "rw_kafka W" and ?c = "rw_settings W"
  have src: "to_source ?K ?c m og sv (group_id_for ?c sv) a = thenC (router_publish ?K ?c (og_topic og) m
      (source_headers og sv (group_id_for ?c sv) a)) (ret (og_topic og))"
    by (simp add: to_source_def source_headers_def)
  have cm: "\<exists>x. trace (snd (worker_commit W m u)) = trace u @
      [(CommitOffset (m_topic m) (m_partition m) (m_offset m + 1), x)]" for u :: "'a worker_state_scheme"
    by (cases rule: call_cases [of ?K u "CommitOffset (m_topic m) (m_partition m) (m_offset m + 1)"])
      (auto simp: worker_commit_def tolerate_def tryC_def raise_def split: exn.splits)
  from K alo show ?thesis
  proof (cases rule: router_publish_at_least_once [where topic = "og_topic og" and m = m
        and hdrs = "source_headers og sv (group_id_for ?c sv) a" and s = s])
    case (acked n pos part off)
    let ?u = "s\<lparr>trace := trace s @ [(p, None), (ProducerFlush, None)], position := pos,
      markers := markers s @ replicate n CHANGELOG_DELIVERY_FAILED @ [RETRY_RELEASED (ev_order_id ev) a]\<rparr>"
    have "worker_commit W m ?u = (r, t)"
      using run acked(1) by (simp add: release_def src tryC_def bindC_def ret_def p_def)
    with cm [of ?u] show ?thesis by auto
  next
    case (refused why n pos l e)
    then have "r = Ok () \<and> trace t = trace s @ l"
      using run by (auto simp: release_def src tryC_def bindC_def ret_def)
    with refused(2) show ?thesis by (auto simp: p_def)
  qed
qed

section \<open>A retry to run\<close>

lemma is_ascii_Cons [simp]: "is_ascii []" "is_ascii (c # s) \<longleftrightarrow> (of_char c :: nat) \<le> 127 \<and> is_ascii s"
  by (simp_all add: is_ascii_def)

lemma is_ascii_two_digits [simp]: "is_ascii (two_digits n)"
proof -
  have "(of_char (digit_char (nat (k mod 10))) :: nat) \<le> 127" for k :: int
  proof -
    have "nat (k mod 10) < 10" by simp
    then show ?thesis by (simp add: digit_char_def of_char_of)
  qed
  then show ?thesis by (simp add: is_ascii_def two_digits_def tens_def ones_def)
qed

lemma isoformat_text [simp]: "utf8_valid (isoformat t)"
  by (rule utf8_valid_ascii) (simp add: isoformat_def Let_def case_prod_beta)

definition boom :: exn where
  "boom = RetryableError ''boom''"

lemma describe_boom [simp]: "describe_error boom = (''RetryableError'', ''boom'')"
  by code_simp

definition demo_origin :: origin where
  "demo_origin = \<lparr>og_topic = ''order-lifecycle'', og_partition = 0, og_offset = 7, og_timestamp = ''unknown''\<rparr>"

definition retry_message :: "int \<Rightarrow> datetime \<Rightarrow> datetime \<Rightarrow> message" where
  "retry_message off due now = demo_message\<lparr>m_topic := ''order-lifecycle.retry'', m_offset := off,
     m_headers := published_headers (retry_headers demo_origin ''inventory'' ''inventory-service'' 2 due now boom)\<rparr>"

lemma retry_message_arrived:
  "arrived (retry_headers demo_origin ''inventory'' ''inventory-service'' 2 due now boom) (retry_message off due now)"
  by (simp add: arrived_def retry_message_def retry_headers_def provenance_def demo_origin_def)
    (simp add: utf8_valid_ascii is_ascii_py_str)

definition ack_kafka :: kafka where
  "ack_kafka = (script_kafka [] 0)\<lparr>k_reports := (\<lambda>h. map (\<lambda>i. (i, Inr (0, int i))) [0..<length h])\<rparr>"

definition demo_worker :: "kafka \<Rightarrow> retry_worker" where
  "demo_worker K = \<lparr>rw_kafka = K, rw_settings = default_settings,
     rw_services = [''inventory'', ''notification'', ''analytics''], rw_pydantic = strict_pydantic, rw_fresh = ''fresh''\<rparr>"

definition idle_worker :: worker_state where
  "idle_worker = \<lparr>trace = [], markers = [], position = Map.empty, deferred = []\<rparr>"

lemma default_topics [simp]:
  "retry_topic default_settings = ''order-lifecycle.retry''" "dlq_topic default_settings = ''order-lifecycle.dlq''"
  by (simp_all add: default_settings_def)

lemma demo_worker_simps [simp]:
  "rw_kafka (demo_worker K) = K" "rw_settings (demo_worker K) = default_settings"
  "rw_services (demo_worker K) = [''inventory'', ''notification'', ''analytics'']"
  "rw_pydantic (demo_worker K) = strict_pydantic" "trace idle_worker = []"
  by (simp_all add: demo_worker_def idle_worker_def)

lemma ack_kafka_simps [simp]:
  "k_raises ack_kafka = (\<lambda>_ _. None)" "k_now ack_kafka h = 0" "k_remaining ack_kafka h = 0" "kafka_ok ack_kafka"
  by (simp_all add: ack_kafka_def script_kafka_def kafka_ok_def)

lemma retry_message_value [simp]:
  "m_value (retry_message off due now) = Some (json_dumps (dump_lifecycle_event strict_pydantic demo_event))"
  "m_topic (retry_message off due now) = ''order-lifecycle.retry''" "m_partition (retry_message off due now) = 0"
  "m_offset (retry_message off due now) = off"
  by (simp_all add: retry_message_def)

text \<open>The first retry of the demonstration message, scheduled at the epoch, is due 30 seconds later.\<close>

lemma demo_scheduled:
  "\<exists>t. to_retry ack_kafka default_settings demo_message demo_origin ''inventory'' ''inventory-service'' 2 boom
      idle_worker = (Ok 30000000, t) \<and>
    trace t = [(Produce ByRouter ''order-lifecycle.retry'' (m_key demo_message) (m_value demo_message)
      (retry_headers demo_origin ''inventory'' ''inventory-service'' 2 30000000 0 boom), None), (ProducerFlush, None)]"
proof -
  have "retry_backoff_schedule default_settings = Some [30, 120]" by code_simp
  then have b: "backoff_for_attempt default_settings 2 = Some 30" by (simp add: backoff_for_attempt_def)
  have d: "timedelta_us 30 = 30000000" by code_simp
  have r: "in_range 30000000" by (simp add: in_range_def)
  show ?thesis
    by (simp add: to_retry_def b d r Let_def retry_headers_def router_publish_def bindC_def gets_def
        tryC_def call_def producer_flush_def ask_def serve_reports_def modify_def ret_def ack_kafka_def
        script_kafka_def serve_report_def upt_rec)
qed

section \<open>A trip to run\<close>

definition failing_settings :: settings where
  "failing_settings = default_settings\<lparr>handler_failure_mode := TRANSIENT\<rparr>"

definition failing_consumer :: "map_disk process consumer" where
  "failing_consumer = service_process ack_kafka map_engine 0 ''host'' strict_pydantic ''fresh'' failing_settings
     (notification_service strict_pydantic)"

definition lever :: exn where
  "lever = RetryableError (''HANDLER_FAILURE_MODE=transient: ord-1 seq '' @ py_str 1 @ '' failed attempt '' @
     py_str 1 @ '' of '' @ py_str 2)"

definition trip_headers :: "(string \<times> string) list" where
  "trip_headers = retry_headers (origin_from_message demo_message) ''notification'' ''notification-service'' 2
     30000000 0 lever"

lemma failing_settings_simps [simp]:
  "retry_topic failing_settings = ''order-lifecycle.retry''" "dlq_topic failing_settings = ''order-lifecycle.dlq''"
  "order_snapshot_topic failing_settings = ''order-snapshot''" "retry_max_attempts failing_settings = 3"
  "exactly_once failing_settings = False" "processing_guarantee failing_settings = AT_LEAST_ONCE"
  "group_id_for failing_settings name = name @ ''-service''"
  by (simp_all add: failing_settings_def default_settings_def exactly_once_def group_id_for_def str_or_def)

lemma failing_maybe_fail: "maybe_fail failing_settings demo_event 1 = Some lever"
  by (simp add: maybe_fail_def failing_settings_def default_settings_def failing_orders_def lever_def
      demo_event_def Let_def)

lemma failing_carries: "carries failing_consumer demo_message demo_event"
proof -
  have "is_ascii ''ord-1''" by simp
  then show ?thesis
    by (simp add: carries_def for_us_def failing_consumer_def notification_service_def decode_headers_def utf8_decode_ascii)
qed

lemma failing_backoff: "backoff_for_attempt failing_settings 2 = Some 30" "timedelta_us 30 = 30000000"
proof -
  have "retry_backoff_schedule failing_settings = Some [30, 120]" by code_simp
  then show "backoff_for_attempt failing_settings 2 = Some 30" by (simp add: backoff_for_attempt_def)
  show "timedelta_us 30 = 30000000" by code_simp
qed

lemma failing_routed:
  assumes "trace s = []"
  shows "\<exists>t. route_failure failing_consumer demo_message lever (Some demo_event) 1 s = (Ok (), t) \<and>
    trace t = [(Produce ByRouter ''order-lifecycle.retry'' (Some ''ord-1'') (m_value demo_message) trip_headers, None),
      (ProducerFlush, None), (CommitOffset ''order-lifecycle'' 0 8, None)]"
proof -
  have r: "in_range 30000000" by (simp add: in_range_def)
  have k: "classify lever \<noteq> NonRetryableKind" by (simp add: classify_def lever_def)
  show ?thesis
    using assms k
    by (simp add: route_failure_def failing_consumer_def Let_def to_retry_def failing_backoff r
        trip_headers_def retry_headers_def router_publish_def bindC_def gets_def notification_service_def
        tryC_def call_def producer_flush_def ask_def serve_reports_def modify_def ret_def ack_kafka_def
        script_kafka_def serve_report_def upt_rec commit_message_def service_process_def direct_ops_def direct_note_def)
qed

lemma failing_handled:
  "\<exists>t. handle_message failing_consumer demo_message tx_process = (Ok (), t) \<and>
    trace t = [(Produce ByRouter ''order-lifecycle.retry'' (Some ''ord-1'') (m_value demo_message) trip_headers, None),
      (ProducerFlush, None), (CommitOffset ''order-lifecycle'' 0 8, None)]"
proof -
  let ?C = failing_consumer
  have us: "for_us ?C demo_message" using failing_carries by (simp add: carries_def)
  have raw: "m_value demo_message = Some (json_dumps (dump_lifecycle_event strict_pydantic demo_event))" by simp
  have d: "decode_event (cn_pydantic ?C) fr now (json_dumps (dump_lifecycle_event strict_pydantic demo_event)) = Inr demo_event"
    for fr now by (simp add: decode_event_def lifecycle_event_of_dump failing_consumer_def)
  have k: "log_key demo_message = ret ()"
    using failing_carries by (auto simp: log_key_def carries_def)
  have a: "attempt_of (decode_headers demo_message) = 1" by (simp add: decode_headers_def attempt_of_def)
  obtain dk where ld: "local_load map_engine failing_settings (cn_group_id ?C) 0 ''ord-1'' tx_process =
      (Ok (local_fold map_engine failing_settings (cn_group_id ?C) tx_process 0 ''ord-1''), on_partition 0 dk tx_process)"
    by (rule local_load_progress [OF tx_process_ok map_engine_total])
  define cur where "cur = local_fold map_engine failing_settings (cn_group_id ?C) tx_process 0 ''ord-1''"
  have ld': "st_load (cn_store ?C) (m_partition demo_message) (ev_order_id demo_event) tx_process =
      (Ok cur, on_partition 0 dk tx_process)"
    using ld by (simp add: failing_consumer_def local_ops_def cur_def)
  define s2 where "s2 = (on_partition 0 dk tx_process)\<lparr>markers := markers (on_partition 0 dk tx_process) @
      map (\<lambda>v. VIOLATION (as_log_fields v)) (reported cur demo_event)\<rparr>"
  have h: "run_handler ?C demo_event 1 s2 = (Ok (Some lever), s2)"
    by (simp add: run_handler_def failing_consumer_def failing_maybe_fail tryC_def bindC_def raise_def lever_def ret_def)
  have "handle_message ?C demo_message tx_process = route_failure ?C demo_message lever (Some demo_event) 1 s2"
    unfolding handle_message_for_us [OF us raw] d sum.case k bindC_ret fold_message_unfold a
      bindC_OkI [of "st_load (cn_store ?C) (m_partition demo_message) (ev_order_id demo_event)", OF ld']
    using h by (simp add: bindC_def s2_def)
  moreover have "trace s2 = []" by (simp add: s2_def tx_process_def)
  ultimately show ?thesis using failing_routed by simp
qed

lemma trip_text: "list_all (\<lambda>(n, v). utf8_valid v) trip_headers"
proof -
  have "describe_error lever = (''RetryableError'',
      ''HANDLER_FAILURE_MODE=transient: ord-1 seq 1 failed attempt 1 of 2'')" by code_simp
  then show ?thesis
    by (simp add: trip_headers_def retry_headers_def provenance_def origin_from_message_def str_or_def
        message_timestamp_def demo_message_def utf8_valid_ascii)
qed

definition due_worker :: retry_worker where
  "due_worker = demo_worker (ack_kafka\<lparr>k_now := (\<lambda>_. 30000000)\<rparr>)"

lemma failing_trip:
  "\<exists>m'. put_back failing_consumer due_worker demo_message m'"
proof -
  let ?m1 = "demo_message\<lparr>m_headers := published_headers trip_headers\<rparr>"
  let ?hs = "source_headers (origin_from_message demo_message) ''notification'' ''notification-service'' 2"
  obtain t where t: "handle_message failing_consumer demo_message tx_process = (Ok (), t)"
    and tr: "trace t = [(Produce ByRouter ''order-lifecycle.retry'' (Some ''ord-1'') (m_value demo_message) trip_headers, None),
      (ProducerFlush, None), (CommitOffset ''order-lifecycle'' 0 8, None)]" using failing_handled by blast
  have arr: "arrived trip_headers ?m1" using trip_text by (simp add: arrived_def)
  have "worker_handle_message due_worker ?m1 idle_worker = release due_worker ?m1 ''notification'' demo_event
      (origin_from_message demo_message) 2 idle_worker"
    using worker_on_retry [where s = idle_worker, OF arr [unfolded trip_headers_def], of due_worker demo_event]
    by (simp add: in_range_def due_worker_def trip_headers_def)
  moreover have "\<exists>u. release due_worker ?m1 ''notification'' demo_event (origin_from_message demo_message) 2
      idle_worker = (Ok (), u) \<and> (Produce ByRouter ''order-lifecycle'' (Some ''ord-1'') (m_value demo_message) ?hs, None)
        \<in> set (trace u)"
    by (simp add: release_def to_source_def router_publish_def worker_commit_def tolerate_def bindC_def gets_def
          tryC_def call_def producer_flush_def ask_def serve_reports_def modify_def ret_def ack_kafka_def due_worker_def
          script_kafka_def serve_report_def upt_rec source_headers_def origin_from_message_def str_or_def
          group_id_for_def default_settings_def)
  ultimately obtain u where u: "worker_handle_message due_worker ?m1 idle_worker = (Ok (), u)"
    "(Produce ByRouter ''order-lifecycle'' (Some ''ord-1'') (m_value demo_message) ?hs, None) \<in> set (trace u)"
    by auto
  have "arrived ?hs (demo_message\<lparr>m_headers := published_headers ?hs\<rparr>)"
    by (simp add: arrived_def source_headers_def provenance_def origin_from_message_def str_or_def
        message_timestamp_def demo_message_def utf8_valid_ascii)
  with t tr u arr show ?thesis
    unfolding put_back_def
    by (intro exI conjI) (assumption | simp add: failing_consumer_def tx_process_def due_worker_def)+
qed

section \<open>Resuming\<close>

lemma worker_resume_due_run:
  fixes s :: "'x worker_state_scheme"
  assumes "k_raises (rw_kafka W) = (\<lambda>_ _. None)"
  shows "\<exists>l t. worker_resume_due W s = (Ok (), t) \<and> trace t = trace s @ l \<and>
    (\<forall>x \<in> set l. \<exists>tp p. x = (ResumePartition tp p, None))"
proof -
  define f :: "(string \<times> int) \<times> int \<Rightarrow> ('x worker_state_scheme, unit) comp" where
    "f = (\<lambda>((topic, p), due). if due > k_now (rw_kafka W) (trace s) then ret ()
       else thenC (modify (\<lambda>s. s\<lparr>deferred := drop_key (topic, p) (deferred s)\<rparr>))
         (tolerate (call (rw_kafka W) (ResumePartition topic p)) (\<lambda>_. ret ())))"
  have step: "\<exists>l t. f x u = (Ok (), t) \<and> trace t = trace u @ l \<and> (\<forall>x \<in> set l. \<exists>tp p. x = (ResumePartition tp p, None))"
    for x u
    using assms by (cases x rule: prod.exhaust [of _ thesis for thesis])
      (auto simp: f_def tolerate_def tryC_def bindC_def call_def modify_def ret_def split: prod.splits)
  have "\<exists>l t. forC xs f u = (Ok (), t) \<and> trace t = trace u @ l \<and> (\<forall>x \<in> set l. \<exists>tp p. x = (ResumePartition tp p, None))"
    for xs u
  proof (induction xs arbitrary: u)
    case (Cons x xs)
    obtain l t where t: "f x u = (Ok (), t)" "trace t = trace u @ l" "\<forall>x \<in> set l. \<exists>tp p. x = (ResumePartition tp p, None)"
      using step by blast
    obtain l' t' where "forC xs f t = (Ok (), t')" "trace t' = trace t @ l'"
      "\<forall>x \<in> set l'. \<exists>tp p. x = (ResumePartition tp p, None)" using Cons.IH by blast
    with t show ?case by (intro exI [of _ "l @ l'"] exI [of _ t']) (auto simp: bindC_def)
  qed (simp add: ret_def)
  then show ?thesis by (simp add: worker_resume_due_def bindC_def gets_def f_def)
qed

section \<open>Properties\<close>

text \<open>C17. A retry is not released early. The worker that reads the record a consumer scheduled, before
  the due time the consumer computed from its backoff, pauses the partition, seeks back to the record
  and remembers that very due time; it publishes and commits nothing.\<close>

theorem retry_waits_until_due:
  assumes "to_retry K c m og sv g a e s = (Ok due, t)"
    and "trace t = trace s @ (Produce ByRouter (retry_topic c) (m_key m) (m_value m) hs, None) # l"
    and "arrived hs m'" and "k_now (rw_kafka W) (trace w) < due" and "k_raises (rw_kafka W) = (\<lambda>_ _. None)"
  shows "\<exists>line. worker_handle_message W m' w = (Ok (), w\<lparr>
    trace := trace w @ [(PausePartition (m_topic m') (m_partition m'), None),
      (Seek (m_topic m') (m_partition m') (m_offset m'), None)],
    markers := markers w @ [line],
    deferred := dict_set (deferred w) (m_topic m', m_partition m') due\<rparr>)"
proof -
  obtain now where due: "in_range due" and hs: "hs = retry_headers og sv g a due now e"
    using to_retry_record [OF assms(1)] assms(2) by auto
  note h = arrived_retry [OF assms(3) [unfolded hs] due]
  have "worker_handle_message W m' w = worker_defer W m' due w"
    using h assms(4) by (simp add: worker_handle_message_def Let_def not_yet_due_def)
  then show ?thesis
    using assms(5)
    by (cases w) (simp add: worker_defer_def tolerate_def tryC_def bindC_def call_def modify_def)
qed

theorem retry_waits_until_due_witness:
  "\<exists>line. worker_handle_message (demo_worker ack_kafka) (retry_message 4 30000000 0) idle_worker = (Ok (), idle_worker\<lparr>
     trace := [(PausePartition ''order-lifecycle.retry'' 0, None), (Seek ''order-lifecycle.retry'' 0 4, None)],
     markers := [line], deferred := [((''order-lifecycle.retry'', 0), 30000000)]\<rparr>)"
proof -
  obtain t where t: "to_retry ack_kafka default_settings demo_message demo_origin ''inventory'' ''inventory-service'' 2
      boom idle_worker = (Ok 30000000, t)"
    and tr: "trace t = [(Produce ByRouter ''order-lifecycle.retry'' (m_key demo_message) (m_value demo_message)
      (retry_headers demo_origin ''inventory'' ''inventory-service'' 2 30000000 0 boom), None), (ProducerFlush, None)]"
    using demo_scheduled by blast
  have tr': "trace t = trace idle_worker @ (Produce ByRouter (retry_topic default_settings) (m_key demo_message)
      (m_value demo_message) (retry_headers demo_origin ''inventory'' ''inventory-service'' 2 30000000 0 boom), None) #
      [(ProducerFlush, None)]" using tr by simp
  from retry_waits_until_due [OF t tr' retry_message_arrived, of "demo_worker ack_kafka" idle_worker 4]
  show ?thesis by (simp add: idle_worker_def)
qed



text \<open>C5. Retrying ends. However often a message of a service fails and comes back through the retry topic
  and the worker, each trip raises its attempt number by exactly one, and no trip begins once the
  number has reached \<^verbatim>\<open>RETRY_MAX_ATTEMPTS\<close>; so a message makes at most the maximum less its first
  attempt number of trips.\<close>

theorem retry_trips_bounded:
  assumes "build_spec P name = Inr spec" and "retry_topic c \<noteq> dlq_topic c"
    and "(put_back (service_process K E fuel host P fresh c spec) W ^^ k) m m'"
  shows "attempt_of (decode_headers m') = attempt_of (decode_headers m) + int k \<and>
    int k \<le> max 0 (retry_max_attempts c - attempt_of (decode_headers m))"
  using assms(3)
proof (induction k arbitrary: m')
  case 0
  then show ?case by simp
next
  case (Suc k)
  then obtain m1 where "(put_back (service_process K E fuel host P fresh c spec) W ^^ k) m m1"
    and "put_back (service_process K E fuel host P fresh c spec) W m1 m'" by auto
  with Suc.IH put_back_step [OF assms(1,2)] show ?case by fastforce
qed

theorem retry_trips_bounded_witness:
  "\<exists>m'. (put_back failing_consumer due_worker ^^ 1) demo_message m' \<and> attempt_of (decode_headers m') = 2"
proof -
  obtain m' where m: "put_back failing_consumer due_worker demo_message m'" using failing_trip by blast
  have spec: "build_spec strict_pydantic ''notification'' = Inr (notification_service strict_pydantic)"
    by (simp add: build_spec_def SERVICE_REGISTRY_def)
  have k: "(put_back failing_consumer due_worker ^^ 1) demo_message m'" using m by (simp only: relpowp_1)
  from retry_trips_bounded [OF spec _ k [unfolded failing_consumer_def]]
  have "attempt_of (decode_headers m') = attempt_of (decode_headers demo_message) + int 1" by simp
  then show ?thesis
    using k by (intro exI [of _ m'] conjI) (simp_all add: decode_headers_def attempt_of_def)
qed



text \<open>A retry record whose original-partition header is not a number ends the worker: its loop lets
  the \<^verbatim>\<open>ValueError\<close> through, having resumed partitions at most. It neither publishes the record nor
  commits its offset, so a restarted worker meets it again, and nothing behind it is ever read.\<close>

lemma malformed_origin_stops_worker:
  assumes "k_raises (rw_kafka W) = (\<lambda>_ _. None)" and "decode_headers m HDR_ORIGINAL_TOPIC = Some topic"
    and "decode_headers m HDR_ORIGINAL_PARTITION = Some v" and "py_int v = None"
  shows "\<exists>why l t. worker_run W (Poll (Polled m) # rest) s = (Raise (ValueError why), t) \<and>
    trace t = trace s @ (Subscribe [retry_topic (rw_settings W)], None) # l @ [(CloseConsumer, None)] \<and>
    (\<forall>x \<in> set l. \<exists>tp p. x = (ResumePartition tp p, None))"
proof -
  let ?s = "s\<lparr>trace := trace s @ [(Subscribe [retry_topic (rw_settings W)], None)]\<rparr>"
  obtain l u where u: "worker_resume_due W ?s = (Ok (), u)" "trace u = trace ?s @ l"
    "\<forall>x \<in> set l. \<exists>tp p. x = (ResumePartition tp p, None)"
    using worker_resume_due_run [OF assms(1), of ?s] by blast
  obtain why where "worker_handle_message W m u = (Raise (ValueError why), u)"
    using assms(2-4) by (simp add: worker_handle_message_def origin_from_headers_def int_header_def raise_def)
  then have "worker_run W (Poll (Polled m) # rest) s =
      (Raise (ValueError why), u\<lparr>trace := trace u @ [(CloseConsumer, None)]\<rparr>)"
    using u(1) assms(1) by (simp add: worker_run_def finallyC_def bindC_def call_def)
  then show ?thesis using u(2,3) by simp
qed

lemma malformed_origin_stops_worker_witness:
  "\<exists>why t. worker_run (demo_worker ack_kafka)
     [Poll (Polled (demo_message\<lparr>m_headers := [(''x-original-topic'', Some ''t''), (''x-original-partition'', Some ''p'')]\<rparr>))]
     idle_worker = (Raise (ValueError why), t) \<and> last (trace t) = (CloseConsumer, None)"
proof -
  let ?m = "demo_message\<lparr>m_headers := [(''x-original-topic'', Some ''t''), (''x-original-partition'', Some ''p'')]\<rparr>"
  have d: "decode_headers ?m = [''x-original-topic'' \<mapsto> ''t'', ''x-original-partition'' \<mapsto> ''p'']"
    by (simp add: decode_headers_def decode_header_def utf8_decode_ascii)
  have v: "py_int ''p'' = None" by code_simp
  have k: "k_raises (rw_kafka (demo_worker ack_kafka)) = (\<lambda>_ _. None)" by (simp add: ack_kafka_def script_kafka_def)
  from malformed_origin_stops_worker [OF k _ _ v, of ?m "''t''" "[]" idle_worker] show ?thesis
    by (auto simp: d)
qed

end
