(* ===== verification/Dead_Letters.thy ===== *)
theory Dead_Letters
  imports Dlq_Replay Retry_Path
begin

text \<open>
  The way of a message that is given up: the consumer that fails it publishes it to the dead-letter topic
  (\<^verbatim>\<open>runtime.py\<close>, \<^verbatim>\<open>dlq.py\<close>), and the tool of \<^verbatim>\<open>tools/dlq_replay.py\<close> reads it there, possibly much later and in
  another process, and puts it back where it came from. What the two agree on is in the headers.
\<close>

section \<open>The dead letter\<close>

definition dead_letter_headers ::
    "origin \<Rightarrow> string \<Rightarrow> string \<Rightarrow> int \<Rightarrow> datetime \<Rightarrow> exn \<Rightarrow> (string \<times> string) list" where
  "dead_letter_headers og sv g n now e =
     provenance og sv g @
     [(HDR_ATTEMPTS_MADE, py_str n), (HDR_ERROR_CLASS, fst (describe_error e)),
      (HDR_ERROR_MESSAGE, snd (describe_error e)), (HDR_FAILED_AT, isoformat now)]"

lemma arrived_dead_letter:
  assumes "arrived (dead_letter_headers og sv g n now e) m"
  shows "decode_headers m HDR_ORIGINAL_TOPIC = Some (og_topic og)" "decode_headers m HDR_SERVICE = Some sv"
    "decode_headers m HDR_ERROR_CLASS = Some (exn_class e)"
proof -
  have d: "decode_headers m = map_of (dead_letter_headers og sv g n now e)"
    by (rule arrived_headers [OF assms]) (simp add: dead_letter_headers_def provenance_def)
  show "decode_headers m HDR_ORIGINAL_TOPIC = Some (og_topic og)" "decode_headers m HDR_SERVICE = Some sv"
    "decode_headers m HDR_ERROR_CLASS = Some (exn_class e)"
    by (simp_all add: d dead_letter_headers_def provenance_def describe_error_def Let_def)
qed

lemma to_dead_letter_publishes:
  "to_dead_letter K c m og sv g n e s =
     router_publish K c (dlq_topic c) m (dead_letter_headers og sv g n (k_now K (trace s)) e) s"
  by (simp add: to_dead_letter_def dead_letter_headers_def)

text \<open>A failure nothing can be done about any more: the message is acknowledged on the dead-letter topic
  and then committed, or it is not committed at all.\<close>

definition given_up :: "settings \<Rightarrow> exn \<Rightarrow> int \<Rightarrow> bool" where
  "given_up c e n \<longleftrightarrow> classify e = NonRetryableKind \<or> retry_max_attempts c \<le> n"

lemma route_given_up:
  assumes K: "kafka_ok K" and C: "cn_kafka C = K" "cn_commits C = direct_ops K" "\<not> exactly_once (cn_settings C)"
    and g: "given_up (cn_settings C) exc n" and run: "route_failure C m exc ev n s = (r, t)"
  defines "p \<equiv> Produce ByRouter (dlq_topic (cn_settings C)) (m_key m) (m_value m)
      (dead_letter_headers (origin_from_message m) (cn_name C) (cn_group_id C) n (k_now K (trace s)) exc)"
  shows "(\<exists>x. trace t = trace s @ [(p, None), (ProducerFlush, None),
            (CommitOffset (m_topic m) (m_partition m) (m_offset m + 1), x)]) \<or>
         (\<exists>l. trace t = trace s @ l \<and> no_commit l)"
proof -
  define oid where "oid = (case ev of Some ev \<Rightarrow> ev_order_id ev | None \<Rightarrow> key_of m)"
  define s1 where "s1 = s\<lparr>markers := markers s @
      [if classify exc \<noteq> NonRetryableKind then RETRY_EXHAUSTED oid else POISON_MESSAGE oid]\<rparr>"
  let ?hs = "dead_letter_headers (origin_from_message m) (cn_name C) (cn_group_id C) n (k_now K (trace s)) exc"
  have s1: "trace s1 = trace s" by (simp add: s1_def)
  have unf: "route_failure C m exc ev n s =
      bindC (tryC (thenC (router_publish K (cn_settings C) (dlq_topic (cn_settings C)) m ?hs)
                (thenC (mark (DLQ_PUBLISHED oid)) (ret True)))
           (\<lambda>e. case e of
              FailurePublishFailed t \<Rightarrow> thenC (mark (FAILURE_PUBLISH_FAILED oid)) (thenC (rewind C m) (ret False))
            | _ \<Rightarrow> raise e))
         (\<lambda>moved. if moved then commit_message C m else ret ()) s1"
    using g unfolding route_failure_def Let_def C(1) oid_def [symmetric] s1_def given_up_def
    by (cases "classify exc = NonRetryableKind") (auto simp: bindC_def tryC_def to_dead_letter_publishes)
  show ?thesis
    using K C(3)
  proof (cases rule: router_publish_at_least_once [where c = "cn_settings C" and topic = "dlq_topic (cn_settings C)"
        and m = m and hdrs = ?hs and s = s1])
    case (acked k pos part off)
    then have "t = snd (commit_message C m (s1\<lparr>trace := trace s @ [(p, None), (ProducerFlush, None)],
        position := pos, markers := markers s1 @ replicate k CHANGELOG_DELIVERY_FAILED @ [DLQ_PUBLISHED oid]\<rparr>))"
      using run unf by (simp add: bindC_def tryC_def ret_def p_def s1)
    moreover obtain x where "trace (snd (commit_message C m u)) =
        trace u @ [(CommitOffset (m_topic m) (m_partition m) (m_offset m + 1), x)]"
      if "u = s1\<lparr>trace := trace s @ [(p, None), (ProducerFlush, None)],
        position := pos, markers := markers s1 @ replicate k CHANGELOG_DELIVERY_FAILED @ [DLQ_PUBLISHED oid]\<rparr>" for u
      using direct_commit_trace [OF C(2)] by metis
    ultimately show ?thesis by auto
  next
    case (refused x k pos l e)
    define u where "u = s1\<lparr>trace := trace s @ l,
        position := pos, markers := markers s1 @ replicate k CHANGELOG_DELIVERY_FAILED @ [FAILURE_PUBLISH_FAILED oid]\<rparr>"
    have "t = snd (rewind C m u)"
      using run unf refused(1)
      by (auto simp: bindC_def tryC_def ret_def s1 u_def split: prod.splits outcome.splits)
    moreover have "quiet_ext u (snd (rewind C m u))"
      using keeps_only_rewind [of "\<lambda>k. \<not> is_commit k" m C] by (simp add: keeps_def)
    ultimately obtain l' where "trace t = trace u @ l'" "no_commit l'" by (auto simp: quiet_ext_def)
    moreover have "no_commit l" using refused(2) by (auto simp: p_def)
    ultimately show ?thesis by (intro disjI2 exI [of _ "l @ l'"]) (simp add: u_def)
  qed
qed

section \<open>Putting it back\<close>

lemma handle_letter_replays:
  assumes "arrived (dead_letter_headers og sv g n now e) m" and "og_topic og \<noteq> []" and "a_publish args"
  defines "p \<equiv> Produce NoCallback (og_topic og) (m_key m) (m_value m) []"
  shows "trace (snd (handle_letter K show_key args m (decode_headers m) k u)) = trace u @
    (if exn_class e = ''NonRetryableError'' \<and> \<not> a_include_poison args then [] else [(p, k_raises K (trace u) p)])"
proof -
  note h = arrived_dead_letter [OF assms(1)]
  show ?thesis
    using assms(2,3)
    by (auto simp: handle_letter_def excluded_def h NON_RETRYABLE_ERROR_CLASSES_def bindC_def ret_def call_def p_def
        split: option.splits)
qed

section \<open>A letter to look at\<close>

definition given_headers :: "(string \<times> string) list" where
  "given_headers = dead_letter_headers (origin_from_message demo_message) ''notification'' ''notification-service'' 3 0 boom"

lemma given_arrived: "arrived given_headers (demo_message\<lparr>m_headers := published_headers given_headers\<rparr>)"
  by (simp add: arrived_def given_headers_def dead_letter_headers_def provenance_def origin_from_message_def str_or_def
      message_timestamp_def demo_message_def)
    (simp add: utf8_valid_ascii is_ascii_py_str)

lemma given_up_run:
  "trace (snd (route_failure failing_consumer demo_message boom None 3 tx_process)) =
     [(Produce ByRouter ''order-lifecycle.dlq'' (m_key demo_message) (m_value demo_message) given_headers, None),
      (ProducerFlush, None), (CommitOffset ''order-lifecycle'' 0 8, None)]"
proof -
  have "classify boom \<noteq> NonRetryableKind" by (simp add: boom_def classify_def)
  then show ?thesis
    by (simp add: route_failure_def Let_def to_dead_letter_publishes given_headers_def failing_consumer_def service_process_def
        notification_service_def router_publish_def bindC_def gets_def tryC_def call_def producer_flush_def ask_def
        serve_reports_def modify_def ret_def ack_kafka_def script_kafka_def serve_report_def upt_rec commit_message_def
        direct_ops_def direct_note_def tx_process_def demo_message_def)
qed

section \<open>Properties\<close>



end
