(* ===== verification/Retry_Target.thy ===== *)
theory Retry_Target
  imports Retry_Path
begin

text \<open>
  The last leg of a retry: the record \<^verbatim>\<open>FailureRouter.to_source\<close> (\<^verbatim>\<open>dlq.py\<close>) puts back on the source topic is
  read by every service, and the branch on \<^verbatim>\<open>x-retry-target\<close> in \<^verbatim>\<open>ServiceConsumer._handle_message\<close>
  (\<^verbatim>\<open>runtime.py\<close>) lets one of them handle it.
\<close>

section \<open>Reading a released record\<close>

lemma to_source_record:
  assumes "to_source K c m og sv g a s = (Ok topic, t)"
  obtains l where "trace t = trace s @ (Produce ByRouter (og_topic og) (m_key m) (m_value m) (source_headers og sv g a), None) # l"
proof -
  from assms have "router_publish K c (og_topic og) m (source_headers og sv g a) s = (Ok (), t)"
    by (auto simp: to_source_def source_headers_def ret_def elim!: bindC_OkE)
  from router_publish_record [OF this] show ?thesis using that by blast
qed

lemma handle_not_ours:
  assumes "m_value m = Some raw" and "decode_headers m HDR_RETRY_TARGET = Some sv" and "cn_name C \<noteq> sv"
  shows "handle_message C m s = commit_message C m s"
  using assms by (auto simp: handle_message_def Let_def)

lemma direct_commit_frame:
  assumes "cn_commits C = direct_ops K" and "kafka_ok K" and "commit_message C m s = (r, t)"
  obtains x ms where "t = s\<lparr>trace := trace s @ [(CommitOffset (m_topic m) (m_partition m) (m_offset m + 1), x)],
    markers := markers s @ ms\<rparr>"
proof (cases rule: call_cases [of K s "CommitOffset (m_topic m) (m_partition m) (m_offset m + 1)"])
  case returned
  then show ?thesis using that [of "[]" None] assms by (simp add: commit_message_def direct_ops_def direct_note_def tryC_def)
next
  case (raised e)
  then show ?thesis
    using that [of "[]" "Some e"] that [of "[COMMIT_REJECTED (m_partition m) (m_offset m)]" "Some e"] assms
    by (cases e) (auto simp: commit_message_def direct_ops_def direct_note_def tryC_def raise_def)
qed

section \<open>A record to look at\<close>

definition released_headers :: "(string \<times> string) list" where
  "released_headers = source_headers demo_origin ''inventory'' ''inventory-service'' 2"

definition released_message :: message where
  "released_message = demo_message\<lparr>m_headers := published_headers released_headers\<rparr>"

lemma released_arrived: "arrived released_headers released_message"
  by (simp add: arrived_def released_message_def released_headers_def source_headers_def provenance_def demo_origin_def)
    (simp add: utf8_valid_ascii is_ascii_py_str)

lemma demo_released:
  "\<exists>t. to_source ack_kafka default_settings demo_message demo_origin ''inventory'' ''inventory-service'' 2 idle_worker =
     (Ok ''order-lifecycle'', t)"
  by (simp add: to_source_def demo_origin_def router_publish_def bindC_def gets_def tryC_def call_def producer_flush_def
      ask_def serve_reports_def modify_def ret_def ack_kafka_def script_kafka_def serve_report_def upt_rec)

section \<open>Properties\<close>

text \<open>C34. A retry reaches one service. A record the retry worker put back for a service is read by all of
  them. The service it names handles the event, as the attempt the record carries; every other service
  makes one call, the commit of the record's offset, and changes nothing else but its log: no fold, no
  handler, no failure, not even on the partition's store.\<close>

theorem released_retry_reaches_one_service:
  fixes s :: "('d, 'x) process_scheme"
  assumes "to_source K c m og sv g a s0 = (Ok topic, t0)"
    and "trace t0 = trace s0 @ (Produce ByRouter (og_topic og) (m_key m) (m_value m) hs, None) # l"
    and "arrived hs m'" and "m_value m' = Some (json_dumps (dump_lifecycle_event P ev))"
    and "pydantic_ok P" and "valid_event P ev" and "m_topic m' \<noteq> order_snapshot_topic c'"
    and "build_spec P name = Inr (spec :: ('d, 'x) process_scheme service_spec)"
    and "processing_guarantee c' = AT_LEAST_ONCE" and "kafka_ok K'"
    and "handle_message (service_process K' E fuel host P fresh c' spec) m' s = (r, t)"
  shows "if name = sv
    then thenC (log_key m') (fold_message (service_process K' E fuel host P fresh c' spec) m' ev (max 1 a)) s = (r, t)
    else \<exists>x ms. t = s\<lparr>trace := trace s @ [(CommitOffset (m_topic m') (m_partition m') (m_offset m' + 1), x)],
      markers := markers s @ ms\<rparr>"
proof -
  let ?C = "service_process K' E fuel host P fresh c' spec"
  obtain l' where "trace t0 = trace s0 @ (Produce ByRouter (og_topic og) (m_key m) (m_value m) (source_headers og sv g a), None) # l'"
    by (rule to_source_record [OF assms(1)])
  with assms(2,3) have "arrived (source_headers og sv g a) m'" by simp
  note h = arrived_source [OF this]
  have name: "cn_name ?C = name"
    using assms(8) by (auto simp: build_spec_def SERVICE_REGISTRY_def inventory_service_def notification_service_def
        analytics_service_def split: if_splits)
  show ?thesis
  proof (cases "name = sv")
    case True
    then have "for_us ?C m'" using h(2) name assms(4,7) by (simp add: for_us_def)
    from handle_message_for_us [OF this assms(4), of s] True assms(11) show ?thesis
      by (simp add: decode_event_def lifecycle_event_of_dump [OF assms(5,6)] h(1))
  next
    case False
    then have "commit_message ?C m' s = (r, t)"
      using handle_not_ours [OF assms(4) h(2), of ?C s] name assms(11) by simp
    moreover have "cn_commits ?C = direct_ops K'" using assms(9) by (simp add: service_process_def)
    ultimately obtain x ms where "t = s\<lparr>trace := trace s @ [(CommitOffset (m_topic m') (m_partition m') (m_offset m' + 1), x)],
        markers := markers s @ ms\<rparr>"
      using direct_commit_frame assms(10) by metis
    with False show ?thesis by auto
  qed
qed

theorem released_retry_reaches_one_service_witness:
  "\<exists>t x ms. handle_message (service_process ack_kafka map_engine 0 ''host'' strict_pydantic ''fresh'' default_settings
       (notification_service strict_pydantic)) released_message tx_process = t \<and>
     snd t = tx_process\<lparr>trace := [(CommitOffset ''order-lifecycle'' 0 8, x)], markers := ms\<rparr>"
proof -
  let ?C = "service_process ack_kafka map_engine 0 ''host'' strict_pydantic ''fresh'' default_settings
     (notification_service strict_pydantic) :: map_disk process consumer"
  obtain t0 where t0: "to_source ack_kafka default_settings demo_message demo_origin ''inventory'' ''inventory-service'' 2
      idle_worker = (Ok ''order-lifecycle'', t0)"
    using demo_released by blast
  obtain l where l: "trace t0 = trace idle_worker @
      (Produce ByRouter (og_topic demo_origin) (m_key demo_message) (m_value demo_message) released_headers, None) # l"
    by (rule to_source_record [OF t0]) (simp add: released_headers_def)
  obtain r t where run: "handle_message ?C released_message tx_process = (r, t)"
    by (cases "handle_message ?C released_message tx_process")
  have spec: "build_spec strict_pydantic ''notification'' = Inr (notification_service strict_pydantic :: map_disk process service_spec)"
    by (simp add: build_spec_def SERVICE_REGISTRY_def)
  have v: "m_value released_message = Some (json_dumps (dump_lifecycle_event strict_pydantic demo_event))"
    "m_topic released_message \<noteq> order_snapshot_topic default_settings"
    by (simp_all add: released_message_def demo_message_def default_settings_def)
  have g: "processing_guarantee default_settings = AT_LEAST_ONCE" by (simp add: default_settings_def)
  from released_retry_reaches_one_service [OF t0 l released_arrived v(1) strict_pydantic_ok demo_event_valid v(2) spec g
      ack_kafka_simps(4) run]
  have "\<exists>x ms. t = tx_process\<lparr>trace := [(CommitOffset ''order-lifecycle'' 0 8, x)], markers := ms\<rparr>"
    by (auto simp: tx_process_def released_message_def demo_message_def)
  with run show ?thesis by auto
qed

end
