(* ===== verification/End_To_End.thy ===== *)
theory End_To_End
  imports Published_Lifecycle Handling
begin

text \<open>
  From the HTTP request to the state of a service. The first part follows a service that reads clean
  events of any number of orders, in any interleaving; the second puts the order service in front of it.
\<close>

section \<open>One clean message\<close>

text \<open>A service with no crash lever, writing its state first.\<close>

definition plain_consumer ::
    "('d, 'x) process_scheme consumer \<Rightarrow> kafka \<Rightarrow> 'd engine \<Rightarrow> nat \<Rightarrow> bool" where
  "plain_consumer C K E fuel \<longleftrightarrow> store_consumer C K E fuel \<and>
     state_write_order (cn_settings C) = STATE_FIRST \<and> state_crash_after (cn_settings C) \<noteq> STATE_WRITE"

lemma handle_clean:
  fixes s :: "('d, 'x) process_scheme"
  assumes C: "plain_consumer C K E fuel" and ok: "sound C E s" and m: "carries C m ev"
  defines "cur \<equiv> fold_of C E s (m_partition m) (ev_order_id ev)"
  assumes clean: "snd (apply_event cur ev) = []"
  obtains t where "handle_message C m s = (Ok (), t)" and "violations t = violations s" and "sound C E t"
    and "fold_of C E t = (\<lambda>p' oid'.
      if p' = m_partition m \<and> oid' = ev_order_id ev then Some (fst (apply_event cur ev)) else fold_of C E s p' oid')"
proof -
  have S: "store_consumer C K E fuel" "state_write_order (cn_settings C) = STATE_FIRST"
    "state_crash_after (cn_settings C) \<noteq> STATE_WRITE"
    using C by (simp_all add: plain_consumer_def)
  obtain u where h: "handle_message C m s = persist_and_commit C m ev (fst (apply_event cur ev)) (m_partition m) u"
    and u: "sound C E u" "fold_of C E u = fold_of C E s"
      "violations u = violations s @ map (\<lambda>v. VIOLATION (as_log_fields v)) (reported cur ev)"
    and f: "f_order_id (fst (apply_event cur ev)) = ev_order_id ev"
    unfolding cur_def by (rule handle_to_write [OF S(1) ok m])
  obtain t where t: "folded C E ev (fst (apply_event cur ev)) (m_partition m) u t"
    and p: "persist_and_commit C m ev (fst (apply_event cur ev)) (m_partition m) u =
      (if state_crash_after (cn_settings C) = STATE_WRITE
       then (Exit 1, t\<lparr>markers := markers t @ [CRASH_LEVER (ev_order_id ev) (ev_sequence ev)]\<rparr>)
       else (Ok (), t\<lparr>trace := trace t @ [(CommitOffset (m_topic m) (m_partition m) (m_offset m + 1), None)]\<rparr>))"
    by (rule persist_state_first [OF S(1,2) u(1) f, where m = m])
  let ?t = "t\<lparr>trace := trace t @ [(CommitOffset (m_topic m) (m_partition m) (m_offset m + 1), None)]\<rparr>"
  have nw: "newer cur (fst (apply_event cur ev)) = fst (apply_event cur ev)"
    using clean by (auto simp: newer_def apply_event_clean apply_event_fields split: option.splits)
  have rep: "reported cur ev = []" using clean by (simp add: reported_def)
  show ?thesis
  proof (rule that [of ?t])
    show "handle_message C m s = (Ok (), ?t)" using h p S(3) by simp
    note ft = folded_trace [OF t, of "trace ?t"]
    show "violations ?t = violations s" using ft u(3) rep by (simp add: folded_def)
    show "sound C E ?t" using ft by (simp add: folded_def)
    show "fold_of C E ?t = (\<lambda>p' oid'.
      if p' = m_partition m \<and> oid' = ev_order_id ev then Some (fst (apply_event cur ev)) else fold_of C E s p' oid')"
      using ft unfolding folded_def u(2) cur_def nw [unfolded cur_def] by simp
  qed
qed

section \<open>A stream of clean messages\<close>

abbreviation of_order :: "string \<Rightarrow> lifecycle_event list \<Rightarrow> lifecycle_event list" where
  "of_order oid \<equiv> filter (\<lambda>e. ev_order_id e = oid)"

text \<open>The messages carry these events, each on the partition of its order.\<close>

definition stream_of ::
    "('d, 'x) process_scheme consumer \<Rightarrow> (string \<Rightarrow> int) \<Rightarrow> message list \<Rightarrow> lifecycle_event list \<Rightarrow> bool" where
  "stream_of C part = list_all2 (\<lambda>m ev. carries C m ev \<and> m_partition m = part (ev_order_id ev))"

lemma consume_clean:
  fixes s :: "('d, 'x) process_scheme"
  assumes C: "plain_consumer C K E fuel" and "sound C E s" and "stream_of C part ms es"
    and "\<And>oid. snd (fold_events (fold_of C E s (part oid) oid) (of_order oid es)) = []"
  shows "\<exists>t. consume C (map (\<lambda>m. Poll (Polled m)) ms) s = (Ok (), t) \<and> violations t = violations s \<and>
    (\<forall>oid. fold_of C E t (part oid) oid = fst (fold_events (fold_of C E s (part oid) oid) (of_order oid es)))"
  using assms(2-4)
proof (induction ms arbitrary: s es)
  case Nil
  then show ?case by (simp add: consume_def stream_of_def ret_def)
next
  case (Cons m ms)
  then obtain ev es' where es: "es = ev # es'" and m: "carries C m ev" "m_partition m = part (ev_order_id ev)"
    and rest: "stream_of C part ms es'"
    by (auto simp: stream_of_def list_all2_Cons1)
  let ?cur = "fold_of C E s (m_partition m) (ev_order_id ev)"
  have clean: "snd (apply_event ?cur ev) = []"
    using Cons.prems(3) [of "ev_order_id ev"] m(2) by (simp add: es case_prod_beta Let_def)
  obtain t where t: "handle_message C m s = (Ok (), t)" "violations t = violations s"
    "sound C E t"
    and fo: "fold_of C E t = (\<lambda>p' oid'. if p' = m_partition m \<and> oid' = ev_order_id ev
      then Some (fst (apply_event ?cur ev)) else fold_of C E s p' oid')"
    by (rule handle_clean [OF C Cons.prems(1) m(1) clean])
  have fe: "fold_events (fold_of C E s (part oid) oid) (of_order oid es) =
      (if oid = ev_order_id ev then map_prod id (\<lambda>ws. snd (apply_event ?cur ev) @ ws)
         (fold_events (Some (fst (apply_event ?cur ev))) (of_order oid es'))
       else fold_events (fold_of C E s (part oid) oid) (of_order oid es'))" for oid
    using m(2) by (simp add: es case_prod_beta Let_def map_prod_def)
  have step: "fold_events (fold_of C E t (part oid) oid) (of_order oid es') =
      fold_events (fold_of C E s (part oid) oid) (of_order oid es)" for oid
    using m(2) clean unfolding fe by (simp add: fo map_prod_def)
  obtain u where u: "consume C (map (\<lambda>m. Poll (Polled m)) ms) t = (Ok (), u)" "violations u = violations t"
    "\<forall>oid. fold_of C E u (part oid) oid = fst (fold_events (fold_of C E t (part oid) oid) (of_order oid es'))"
    using Cons.IH [OF t(3) rest] Cons.prems(3) step by fastforce
  have "settle C t = (Ok (), t)"
    using C by (simp add: plain_consumer_def store_consumer_def settle_def direct_ops_def tryC_def ret_def)
  then have "consume C (map (\<lambda>m. Poll (Polled m)) (m # ms)) s = (Ok (), u)"
    using t(1) u(1) by (simp add: consume_def bindC_def)
  with u t(2) step show ?case by auto
qed

section \<open>From the topic to the stream\<close>

text \<open>Per key, the messages are the records: nothing lost, nothing added, in order. Across keys any
  interleaving is allowed, as a keyed partition does.\<close>

lemma merge_by_key:
  assumes "\<And>k. map f (filter (\<lambda>m. key m = k) ms) = map g (E k)" and "\<And>k e. e \<in> set (E k) \<Longrightarrow> ident e = k"
  shows "\<exists>es. list_all2 (\<lambda>m e. f m = g e \<and> ident e = key m \<and> e \<in> set (E (key m))) ms es \<and>
    (\<forall>k. filter (\<lambda>e. ident e = k) es = E k)"
  using assms
proof (induction ms arbitrary: E)
  case Nil
  then show ?case by simp
next
  case (Cons m ms)
  obtain e rest where e: "E (key m) = e # rest" "f m = g e" "map f (filter (\<lambda>x. key x = key m) ms) = map g rest"
    using Cons.prems(1) [of "key m"] by (cases "E (key m)") auto
  define E' where "E' = E(key m := rest)"
  have "\<exists>es. list_all2 (\<lambda>m e. f m = g e \<and> ident e = key m \<and> e \<in> set (E' (key m))) ms es \<and>
      (\<forall>k. filter (\<lambda>e. ident e = k) es = E' k)"
  proof (rule Cons.IH)
    fix k
    show "map f (filter (\<lambda>m. key m = k) ms) = map g (E' k)"
      using Cons.prems(1) [of k] e(3) by (auto simp: E'_def split: if_splits)
  next
    fix k x
    assume "x \<in> set (E' k)"
    then show "ident x = k" using Cons.prems(2) [of x k] e(1) by (auto simp: E'_def split: if_splits)
  qed
  then obtain es where es: "list_all2 (\<lambda>m e. f m = g e \<and> ident e = key m \<and> e \<in> set (E' (key m))) ms es"
    "\<forall>k. filter (\<lambda>e. ident e = k) es = E' k" by blast
  have "list_all2 (\<lambda>m e. f m = g e \<and> ident e = key m \<and> e \<in> set (E (key m))) ms es"
    by (rule list_all2_mono [OF es(1)]) (auto simp: E'_def e(1) split: if_splits)
  moreover have "ident e = key m" using Cons.prems(2) [of e "key m"] e(1) by simp
  ultimately show ?case
    using es(2) e(1,2) by (intro exI [of _ "e # es"]) (auto simp: E'_def)
qed

definition delivered :: "settings \<Rightarrow> (string \<Rightarrow> int) \<Rightarrow> sent list \<Rightarrow> message list \<Rightarrow> bool" where
  "delivered c part sent ms \<longleftrightarrow>
     list_all (\<lambda>m. m_topic m = order_lifecycle_topic c \<and> decode_headers m HDR_RETRY_TARGET = None \<and>
       (\<exists>k. m_key m = Some k \<and> utf8_decode k \<noteq> None \<and> m_partition m = part k)) ms \<and>
     (\<forall>oid. map m_value (filter (\<lambda>m. m_key m = Some oid) ms) = map s_value (lifecycle_log c oid sent))"

lemma fold_events_last:
  assumes "es \<noteq> []"
  shows "\<exists>g. fst (fold_events cur es) = Some g \<and> f_last_sequence g = ev_sequence (last es) \<and>
    f_state g = Some (RESULTING_STATE (ev_type (last es))) \<and>
    f_order_id g = (case cur of None \<Rightarrow> ev_order_id (hd es) | Some f \<Rightarrow> f_order_id f)"
  using assms
proof (induction es arbitrary: cur)
  case (Cons e es)
  show ?case
  proof (cases "es = []")
    case True
    then show ?thesis by (simp add: case_prod_beta Let_def apply_event_fields split: option.split)
  next
    case False
    then show ?thesis
      using Cons.IH [OF False, of "Some (fst (apply_event cur e))"]
      by (cases cur) (simp_all add: case_prod_beta Let_def apply_event_fields)
  qed
qed simp

lemma told_stream:
  fixes C :: "('d, 'x) process_scheme consumer"
  assumes "\<And>oid. told P c oid t (H oid)" and "delivered c part (enqueued t) ms"
    and "order_lifecycle_topic c \<noteq> order_snapshot_topic c" and "cn_settings C = c" and "cn_pydantic C = P"
  shows "\<exists>es. stream_of C part ms es \<and> (\<forall>oid. of_order oid es = H oid)"
proof -
  let ?v = "\<lambda>e. Some (json_dumps (dump_lifecycle_event P e))"
  have own: "e \<in> set (H oid) \<Longrightarrow> ev_order_id e = oid \<and> valid_event P e" for e oid
    using assms(1) [of oid] by (auto simp: told_def list_all_iff)
  have keyed: "m_key m = Some (the (m_key m))" if "m \<in> set ms" for m
    using assms(2) that by (auto simp: delivered_def list_all_iff)
  have vals: "map m_value (filter (\<lambda>m. the (m_key m) = oid) ms) = map ?v (H oid)" for oid
  proof -
    have "filter (\<lambda>m. the (m_key m) = oid) ms = filter (\<lambda>m. m_key m = Some oid) ms"
      using keyed by (intro filter_cong refl) (metis option.sel)
    then show ?thesis using assms(1) [of oid] assms(2) by (simp add: delivered_def told_def)
  qed
  from merge_by_key [of m_value "\<lambda>m. the (m_key m)" ms ?v H ev_order_id, OF vals] own
  obtain es where es: "list_all2 (\<lambda>m e. m_value m = ?v e \<and> ev_order_id e = the (m_key m) \<and> e \<in> set (H (the (m_key m)))) ms es"
    "\<forall>oid. of_order oid es = H oid" by auto
  have "stream_of C part ms es"
    unfolding stream_of_def
  proof (rule list.rel_mono_strong)
    show "list_all2 (\<lambda>m e. m_value m = ?v e \<and> ev_order_id e = the (m_key m) \<and> e \<in> set (H (the (m_key m)))) ms es"
      by (rule es(1))
  next
    fix m e
    assume "m \<in> set ms" and me: "m_value m = ?v e \<and> ev_order_id e = the (m_key m) \<and> e \<in> set (H (the (m_key m)))"
    then obtain k where k: "m_key m = Some k" "utf8_decode k \<noteq> None" "m_partition m = part k"
      "m_topic m = order_lifecycle_topic c" "decode_headers m HDR_RETRY_TARGET = None"
      using assms(2) by (auto simp: delivered_def list_all_iff)
    with me own [of e k] assms(3-5) show "carries C m e \<and> m_partition m = part (ev_order_id e)"
      by (auto simp: carries_def for_us_def)
  qed
  with es(2) show ?thesis by blast
qed

section \<open>The service consumers\<close>

lemma run_clean:
  assumes "plain_consumer C K E fuel" and "sound C E s" and "stream_of C part ms es"
    and "\<And>oid. snd (fold_events (fold_of C E s (part oid) oid) (of_order oid es)) = []"
  shows "\<exists>t. run C (map (\<lambda>m. Poll (Polled m)) ms) s = (Ok (), t) \<and> violations t = violations s \<and>
    (\<forall>oid. fold_of C E t (part oid) oid = fst (fold_events (fold_of C E s (part oid) oid) (of_order oid es)))"
proof -
  let ?sub = "Subscribe [order_lifecycle_topic (cn_settings C), order_snapshot_topic (cn_settings C)]"
  let ?s = "s\<lparr>trace := trace s @ [(?sub, None)]\<rparr>"
  have same: "fold_of C E (w\<lparr>trace := h\<rparr>) = fold_of C E w" for w h
    by (simp add: local_fold_def stored_at_def held_contents_def fun_eq_iff)
  have "sound C E ?s" using assms(2) by (simp add: local_ok_def held_contents_def)
  from consume_clean [OF assms(1) this assms(3)] assms(4)
  obtain t where t: "consume C (map (\<lambda>m. Poll (Polled m)) ms) ?s = (Ok (), t)" "violations t = violations s"
    "\<forall>oid. fold_of C E t (part oid) oid = fst (fold_events (fold_of C E s (part oid) oid) (of_order oid es))"
    unfolding same by auto
  have "run C (map (\<lambda>m. Poll (Polled m)) ms) s = (Ok (), t\<lparr>trace := trace t @ [(CloseConsumer, None)]\<rparr>)"
    using assms(1) t(1)
    by (simp add: run_def plain_consumer_def store_consumer_def accepting_def direct_ops_def bindC_def call_def finallyC_def tryC_def ret_def)
  with t(2,3) show ?thesis
    by (intro exI [of _ "t\<lparr>trace := trace t @ [(CloseConsumer, None)]\<rparr>"]) (simp add: same)
qed

lemma requests_reach_fold:
  fixes w :: "('d, 'x) process_scheme"
  assumes told: "\<And>oid. told P c oid t (H oid)" and tp: "order_lifecycle_topic c \<noteq> order_snapshot_topic c"
    and dl: "delivered c part (enqueued t) ms"
    and C: "plain_consumer C K E fuel" "cn_settings C = c" "cn_pydantic C = P"
    and w: "local_ok E c (cn_group_id C) w" "\<And>oid. fold_of C E w (part oid) oid = None"
  shows "\<exists>u. run C (map (\<lambda>m. Poll (Polled m)) ms) w = (Ok (), u) \<and> violations u = violations w \<and>
    (\<forall>oid r. app_orders t oid = Some r \<longrightarrow> fold_of C E u (part oid) oid =
       Some \<lparr>f_order_id = oid, f_last_sequence = o_last_sequence r, f_state = Some (o_state r)\<rparr>)"
proof -
  obtain es where es: "stream_of C part ms es" "\<And>oid. of_order oid es = H oid"
    using told_stream [OF told dl tp C(2,3)] by blast
  have clean: "snd (fold_events None (H oid)) = []" for oid
    using told [of oid] by (simp add: fold_events_on_course on_course_def position_in_def told_def)
  obtain u where u: "run C (map (\<lambda>m. Poll (Polled m)) ms) w = (Ok (), u)" "violations u = violations w"
    "\<And>oid. fold_of C E u (part oid) oid = fst (fold_events None (H oid))"
    using run_clean [OF C(1) _ es(1), of w] w C(2) clean es(2) by auto
  have "fold_of C E u (part oid) oid = Some \<lparr>f_order_id = oid, f_last_sequence = o_last_sequence r, f_state = Some (o_state r)\<rparr>"
    if r: "app_orders t oid = Some r" for oid r
  proof -
    have H: "H oid \<noteq> []" "o_last_sequence r = int (length (H oid))" "o_state r = RESULTING_STATE (ev_type (last (H oid)))"
      "map step_of (H oid) = take (length (H oid)) lifecycle" "ev_order_id (hd (H oid)) = oid"
      using told [of oid] r by (auto simp: told_def list_all_iff)
    obtain g where "fst (fold_events None (H oid)) = Some g" "f_last_sequence g = ev_sequence (last (H oid))"
      "f_state g = Some (RESULTING_STATE (ev_type (last (H oid))))" "f_order_id g = oid"
      using fold_events_last [OF H(1), of None] H(5) by auto
    with u(3) H(2,3) last_sequence [OF H(4,1)] show ?thesis by simp
  qed
  with u(1,2) show ?thesis by blast
qed

section \<open>A system to run\<close>

definition as_message :: "sent \<Rightarrow> message" where
  "as_message r = demo_message\<lparr>m_topic := s_topic r, m_key := Some (s_key r), m_value := s_value r, m_partition := 0\<rparr>"

lemma as_message_simps [simp]:
  "m_topic (as_message r) = s_topic r" "m_key (as_message r) = Some (s_key r)" "m_value (as_message r) = s_value r"
  "m_partition (as_message r) = 0" "decode_headers (as_message r) = Map.empty"
  by (simp_all add: as_message_def decode_headers_def)

lemma delivered_in_order:
  assumes "\<forall>x \<in> set l. utf8_decode (s_key x) \<noteq> None"
  shows "delivered c (\<lambda>_. 0) l (map as_message (filter (\<lambda>r. s_topic r = order_lifecycle_topic c) l))"
  using assms by (auto simp: delivered_def list_all_iff lifecycle_log_def filter_map comp_def conj_commute)

lemma default_plain:
  "plain_settings default_settings" "state_write_order default_settings = STATE_FIRST"
  "state_crash_after default_settings \<noteq> STATE_WRITE"
  by (simp_all add: plain_settings_def default_settings_def maybe_fail_def)

end
