(* ===== verification/Spec2Isabelle.thy ===== *)
theory Spec2Isabelle
  imports Order_Concurrency Producer_Threads Published_Snapshots Rebalance Dead_Letters Retry_Target End_To_End
begin

text \<open>
  \<^bold>\<open>The program.\<close> \<^verbatim>\<open>order_service\<close> is a prepaid-order service around Kafka. An HTTP service creates
  orders, publishes their lifecycle events (created, packed, shipped, delivered) and keeps a compacted
  topic of snapshots. Three consumer services (inventory, notification, analytics) read the events, fold
  them per order, run a handler, and commit. A failed message goes to a retry topic, from which a retry
  worker puts it back when it is due, or to a dead-letter topic, from which a tool replays it on demand.
  All paths below are under \<^verbatim>\<open>src/src/order_service/\<close>.

  \<^bold>\<open>Effects.\<close> A method is a computation \<open>('s, 'a) comp\<close> (\<open>Py_Base\<close>): it takes the state of its process
  and returns an outcome (a value, a raised exception, the exit of the process) and the new state;
  \<open>tryC\<close>, \<open>finallyC\<close> and \<open>forC\<close> are the statements they are named after. Exceptions are values of \<open>exn\<close>, so
  each raise, except clause and early exit of the code is a branch. Python integers are \<open>int\<close>, floats that
  are read from settings \<open>rat\<close>, times are microseconds since the epoch in UTC. Strings are lists of bytes: text is
  its UTF-8 encoding.

  \<^bold>\<open>Parameters.\<close> Code that is not in the repository is an argument of the definitions that use it. The
  order service sees its client as a \<open>broker\<close>, the consumers see theirs as a \<open>kafka\<close>: both answer each
  call from the history of the calls before it, so any behaviour over time is covered, and \<open>broker_ok\<close>,
  \<open>kafka_ok\<close>, \<open>client_ok\<close> state which exceptions the client documents. The embedded store is an \<open>engine\<close>
  with the dictionary laws \<open>engine_ok\<close>, the coercions of pydantic (what it takes for an integer, a string, a time) are
  \<open>pydantic\<close> with \<open>pydantic_ok\<close>; the clock, fresh identifiers and the host name are arguments or part of the client. The
  witnesses instantiate each of them with a concrete one (\<open>accepting_broker\<close>, \<open>script_kafka\<close>,
  \<open>map_engine\<close>, \<open>strict_pydantic\<close>).

  \<^bold>\<open>Theories and code.\<close>
  \<^item> \<open>Py_Base\<close>, \<open>Json_Values\<close>, \<open>Datetimes\<close>: the language as far as it is used: computations with the rules
    that carry an invariant through them, \<^verbatim>\<open>int()\<close>, \<^verbatim>\<open>str.split\<close>, UTF-8, JSON, ISO times.
  \<^item> \<open>Settings_Model\<close>: \<^verbatim>\<open>config.py\<close>. \<open>Events\<close>: \<^verbatim>\<open>events.py\<close>. \<open>Orders\<close>: \<^verbatim>\<open>producer/orders.py\<close>,
    with the locale \<open>sequence_allocator\<close> for what its users rely on, interpreted on the order store.
  \<^item> \<open>Order_Producer\<close>, \<open>Producer_Threads\<close>: \<^verbatim>\<open>producer/kafka_producer.py\<close> seen by one handler, and its
    poll thread, waiting handlers and \<^verbatim>\<open>start\<close>/\<^verbatim>\<open>stop\<close> as a step relation; the lifespan of
    \<^verbatim>\<open>producer/app.py\<close>.
  \<^item> \<open>Routes\<close>: \<^verbatim>\<open>producer/routes.py\<close>. \<open>Order_Concurrency\<close>: its handlers interleaved between their calls of the
    order store. \<open>Published_Lifecycle\<close>, \<open>Published_Snapshots\<close>: what a series of requests leaves on the
    lifecycle topic and on the compacted snapshot topic.
  \<^item> \<open>Kafka_Client\<close>: the calls of the consumer processes, their history and the markers they log.
  \<^item> \<open>State_Store\<close>, \<open>Local_Store\<close>, \<open>Changelog\<close>, \<open>Store_Progress\<close>: \<^verbatim>\<open>consumer/state.py\<close>, the memory and the local
    backend, and what a restore from the changelog gives. The contract of a store is the locale
    \<open>fold_store\<close>, interpreted on both backends.
  \<^item> \<open>Transactions\<close>, \<open>Exactly_Once\<close>: \<^verbatim>\<open>consumer/transactions.py\<close>. The contract of a commit strategy is the
    locale \<open>commit_strategy\<close>, interpreted on both.
  \<^item> \<open>Failure_Routing\<close>: \<^verbatim>\<open>consumer/dlq.py\<close>, \<^verbatim>\<open>errors.py\<close>, \<^verbatim>\<open>failures.py\<close>.
  \<^item> \<open>Runtime\<close>: \<^verbatim>\<open>consumer/runtime.py\<close>, with \<open>Call_Traces\<close> (which calls an operation
    makes; its locale \<open>contained_consumer\<close> is interpreted on the three services in \<open>Retry_Path\<close>), \<open>Runtime_Fold\<close>,
    \<open>Runtime_Commit\<close> (the order of write, flush and commit).
  \<^item> \<open>Services\<close>: \<^verbatim>\<open>consumer/inventory.py\<close>, \<^verbatim>\<open>notification.py\<close>, \<^verbatim>\<open>analytics.py\<close>, \<^verbatim>\<open>main.py\<close>. \<open>Handling\<close>: one
    message handled by a service whose calls are accepted. \<open>Crash_Recovery\<close>: crashes and redeliveries.
    \<open>Escapes\<close>: how a process may end. \<open>Rebalance\<close>: a partition handed from one member of a group to another.
  \<^item> \<open>Retry_Worker\<close>, \<open>Retry_Path\<close>: \<^verbatim>\<open>consumer/retry_worker.py\<close> and a message's way through it,
    \<open>Retry_Target\<close> its reading by the services. \<open>Dlq_Replay\<close>: \<^verbatim>\<open>tools/dlq_replay.py\<close>; \<open>Dead_Letters\<close>: from the
    failed message to its replay. \<open>End_To_End\<close> and this theory: the composition.

  \<^bold>\<open>What is shown.\<close> The specification of the whole is what each client knows of an order: its sequence number
  and state. \<open>requests_reach_the_service\<close> below is the refinement: what the HTTP requests did is what every
  service ends up holding, through the topic, the wire format, the fold and the store. It rests on the
  invariant that the topic tells each order's lifecycle (\<open>Published_Lifecycle\<close>), the equivalence of
  a stream without violations with a prefix of the lifecycle (\<open>Runtime_Fold\<close>), the round trip of events, and the
  contracts of store and committer. Beside it: each HTTP handler is all or nothing; sequence numbers are unique
  under every interleaving; a handler gets its own delivery report, and can get it while the poll thread
  lives; an offset is committed only after the changelog was flushed; a restore rebuilds the store from however
  compacted a changelog; a saved fold is never lowered; redeliveries and crashes in the default order lose and
  repeat nothing; a member that takes a partition over knows what the one before it knew; the
  snapshot topic, compacted, is the order store; retries are bounded, never early, and return to their service and
  to no other; what is given up can be replayed as it was; a replay stays in its snapshot and ends; every way a process
  can end. Where the code does not do what its comments
  promise, the theorem states what it does (a tombstone committed unflushed, the first write of a
  transaction outside it, a failed commit that is not repaired, a restore that stalls before a transaction
  marker, a release that is not rewound, a header or a key that stops a process, acknowledgement settings
  the client refuses).

  \<^bold>\<open>Bounds and fuel.\<close> Two loops of the code read from a broker that may answer for ever: \<^verbatim>\<open>_drain\<close> and the
  replay. Both spend one unit of fuel per poll. \<open>changelog_rebuilds_store\<close> shows that as many units as the reader
  has records up to the recorded end are enough for a restore, \<open>replay_ends\<close> that as many as deliver each
  partition to its recorded end are enough for a replay. Running out is the
  exception \<open>OutOfFuel\<close>, which no code raises and which the theorems mention where it can occur. The consume loops run over a list of inputs, every poll result and rebalance callback of a life of
  the process; a signal is the end of the list.

  \<^bold>\<open>Not modelled.\<close> FastAPI's and argparse's parsing (handlers take the validated records), the assembly of the FastAPI
  object and the call of uvicorn in \<^verbatim>\<open>create_app\<close> and \<^verbatim>\<open>main\<close> of \<^verbatim>\<open>producer/app.py\<close>, reading the environment into settings, sleeping, log
  lines without a marker, seconds inside error texts, \<^verbatim>\<open>fromisoformat\<close> beyond the extended format, the quoting
  of \<^verbatim>\<open>repr\<close>; the tests, scripts, container files and documents of the repository.
\<close>

section \<open>Properties that span the components\<close>

text \<open>C20. An event survives the wire. Whatever the event model accepts, the consumer reads back from the
  bytes the producer writes, whenever and with whatever fresh identifier it validates; and whatever a
  consumer reads out of any message is an event the model accepts.\<close>

theorem events_survive_the_wire:
  assumes "pydantic_ok P"
  shows "(valid_event P ev \<longrightarrow> decode_event P fresh now (json_dumps (dump_lifecycle_event P ev)) = Inr ev) \<and>
    (decode_event P fresh now raw = Inr ev' \<longrightarrow> valid_event P ev')"
  using assms
  by (auto simp: decode_event_def lifecycle_event_of_dump Option.bind_eq_Some_conv dest: lifecycle_event_of_valid
      split: option.splits)

theorem events_survive_the_wire_witness:
  "decode_event strict_pydantic ''fresh'' 0 (json_dumps (dump_lifecycle_event strict_pydantic demo_event)) = Inr demo_event"
  using events_survive_the_wire [OF strict_pydantic_ok, of demo_event "''fresh''" 0] demo_event_valid by simp

text \<open>C1. What the HTTP clients did is what every service ends up knowing. Take any series of requests
  the order service handles one after the other, unforced, without a 502 or 504, and with distinct
  order ids; and any of the three services, under the default guarantee with no lever set, on a broker
  that accepts its calls, an engine that does not fail and an empty store. If the messages it polls
  are, per order, the order's lifecycle records in order, interleaved in any way, then its loop
  returns, reports no violation, and holds for every order the order service still has exactly the
  sequence number and the state that the order service has.\<close>

theorem requests_reach_the_service:
  fixes w :: "('d, 'x) process_scheme"
  assumes "broker_ok B" and "pydantic_ok P" and "order_lifecycle_topic c \<noteq> order_snapshot_topic c"
    and "list_all request_ok qs" and "list_all unforced qs" and "distinct (concat (map new_ids qs))"
    and "serve B P c qs app_init = (codes, t)" and "set codes \<inter> {502, 504} = {}"
    and "build_spec P name = Inr (spec :: ('d, 'x) process_scheme service_spec)" and "plain_settings c"
    and "state_write_order c = STATE_FIRST" and "state_crash_after c \<noteq> STATE_WRITE" and "accepting K" and "engine_total E" and "local_ok E c (group_id_for c (sp_name spec)) w"
    and "\<forall>oid. local_fold E c (group_id_for c (sp_name spec)) w (part oid) oid = None"
    and "delivered c part (enqueued t) ms"
  shows "\<exists>u. run (service_process K E fuel host P fresh c spec) (map (\<lambda>m. Poll (Polled m)) ms) w = (Ok (), u) \<and>
    filter is_violation (markers u) = filter is_violation (markers w) \<and>
    (\<forall>oid r. app_orders t oid = Some r \<longrightarrow>
       local_fold E c (group_id_for c (sp_name spec)) u (part oid) oid =
         Some \<lparr>f_order_id = oid, f_last_sequence = o_last_sequence r, f_state = Some (o_state r)\<rparr>)"
proof -
  let ?C = "service_process K E fuel host P fresh c spec"
  have init: "store_ok (app_orders app_init)" by (simp add: app_init_def)
  have "in_step P c t"
    by (rule in_step_serve [OF assms(1-3) init assms(4,5) in_step_init assms(6) _ assms(7,8)]) (simp add: app_init_def)
  then obtain H where H: "\<And>oid. told P c oid t (H oid)" unfolding in_step_def by metis
  have C: "plain_consumer ?C K E fuel"
    using service_store_consumer [OF assms(9,10,2,13,14)] assms(11,12) by (simp add: plain_consumer_def)
  have w: "local_ok E c (cn_group_id ?C) w" "fold_of ?C E w (part oid) oid = None" for oid
    using assms(15,16) by simp_all
  show ?thesis
    using requests_reach_fold [OF H assms(3,17) C _ _ w] by simp
qed

theorem requests_reach_the_service_witness:
  "\<exists>t ms (u :: map_disk process). serve accepting_broker strict_pydantic default_settings demo_requests app_init = ([201, 200], t) \<and>
     delivered default_settings (\<lambda>_. 0) (enqueued t) ms \<and>
     run (service_process (script_kafka [] 0) map_engine 0 ''host'' strict_pydantic ''fresh'' default_settings
       (inventory_service strict_pydantic)) (map (\<lambda>m. Poll (Polled m)) ms) tx_process = (Ok (), u) \<and>
     local_fold map_engine default_settings (group_id_for default_settings ''inventory'') u 0 ''ord-0123456789ab'' =
       Some \<lparr>f_order_id = ''ord-0123456789ab'', f_last_sequence = 2, f_state = Some S_PACKED\<rparr>"
proof -
  obtain t r where t: "serve accepting_broker strict_pydantic default_settings demo_requests app_init = ([201, 200], t)"
    and r: "app_orders t ''ord-0123456789ab'' = Some r" "o_last_sequence r = 2" "o_state r = S_PACKED"
    and k: "\<forall>x \<in> set (enqueued t). s_key x = ''ord-0123456789ab''" using demo_served by blast
  let ?ms = "map as_message (filter (\<lambda>x. s_topic x = order_lifecycle_topic default_settings) (enqueued t))"
  have "is_ascii ''ord-0123456789ab''" by (simp add: is_ascii_def)
  then have dl: "delivered default_settings (\<lambda>_. 0) (enqueued t) ?ms"
    using k by (intro delivered_in_order) (simp add: utf8_decode_ascii)
  have ok: "list_all request_ok demo_requests" "list_all unforced demo_requests" "distinct (concat (map new_ids demo_requests))"
    by (simp_all add: demo_requests_def create_order_request_ok_def demo_body_def demo_item_def valid_item_def valid_payment_def)
  have tp: "order_lifecycle_topic default_settings \<noteq> order_snapshot_topic default_settings"
    by (simp add: default_settings_def)
  have spec: "build_spec strict_pydantic ''inventory'' =
      Inr (inventory_service strict_pydantic :: map_disk process service_spec)"
    by (simp add: build_spec_def SERVICE_REGISTRY_def)
  have nm: "sp_name (inventory_service strict_pydantic :: map_disk process service_spec) = ''inventory''"
    by (simp add: inventory_service_def)
  have e: "\<forall>oid. local_fold map_engine default_settings (group_id_for default_settings (sp_name
      (inventory_service strict_pydantic :: map_disk process service_spec))) tx_process 0 oid = None"
    by (simp add: tx_process_empty)
  from requests_reach_the_service [OF accepting_broker_ok strict_pydantic_ok tp ok t _ spec default_plain script_accepting
      map_engine_total tx_process_ok e dl, of 0 "''host''" "''fresh''"] r t dl
  show ?thesis unfolding nm by fastforce
qed

end
